theory Spec2Isabelle
  imports Complex_Main "HOL-Library.Char_ord" "HOL-Library.List_Lexorder"
    "HOL-Library.Product_Lexorder"
begin

section \<open>Values of the tagger (viterbiPOStagger.py)\<close>

text \<open>
  Tags are Python strings and are compared as such by \<open>max\<close>: lexicographically, character
  by character, a proper prefix being smaller. Tokens are only ever compared for equality,
  so their type is left open.

  A table entry is a Python float that is either finite or \<open>float('-inf')\<close>. In the
  training functions and in the decoder of Module 3 the finite floats are idealised as the
  real numbers: addition is exact and \<open>math.log2\<close> is the real logarithm to base 2. What
  depends on the order or the equality of two computed sums, the recursion step and its
  backpointers, is stated over a second copy of the chart whose addition is the rounded
  addition of doubles.
\<close>

type_synonym tag = string

datatype error = KeyError | IndexError | ValueError | ZeroDivisionError | NameError | EmptyInput

text \<open>
  \<open>EmptyInput\<close> is the name the decode contract gives to the rejection of a zero-length
  sequence; no statement of viterbiPOStagger.py raises it. The other constructors are the
  exceptions the interpreter raises in the modelled functions.
\<close>

datatype score = NegInf | Fin real

instantiation score :: "{plus, linorder}"
begin

fun plus_score :: "score \<Rightarrow> score \<Rightarrow> score" where
  "plus_score NegInf _ = NegInf"
| "plus_score (Fin x) NegInf = NegInf"
| "plus_score (Fin x) (Fin y) = Fin (x + y)"

fun less_eq_score :: "score \<Rightarrow> score \<Rightarrow> bool" where
  "less_eq_score NegInf _ = True"
| "less_eq_score (Fin x) NegInf = False"
| "less_eq_score (Fin x) (Fin y) = (x \<le> y)"

definition less_score :: "score \<Rightarrow> score \<Rightarrow> bool" where
  "less_score a b = (a \<le> b \<and> \<not> b \<le> a)"

instance
proof
  fix x y z :: score
  show "(x < y) = (x \<le> y \<and> \<not> y \<le> x)" by (simp add: less_score_def)
  show "x \<le> x" by (cases x) simp_all
  show "x \<le> y \<Longrightarrow> y \<le> z \<Longrightarrow> x \<le> z" by (cases x; cases y; cases z) simp_all
  show "x \<le> y \<Longrightarrow> y \<le> x \<Longrightarrow> x = y" by (cases x; cases y) simp_all
  show "x \<le> y \<or> y \<le> x" by (cases x; cases y) auto
qed

end

text \<open>
  A backpointer cell holds the integer \<open>0\<close> it is created with (\<open>empty_dic\<close>), or a string:
  the sentinel \<open>"origin"\<close> or a tag.
\<close>

datatype cell = Zero | Str string

instantiation cell :: zero
begin

definition zero_cell :: cell where
  "zero_cell = Zero"

instance ..

end

type_synonym vrow = "tag \<rightharpoonup> score"
type_synonym bprow = "tag \<rightharpoonup> cell"
type_synonym initial = "tag \<rightharpoonup> score"
type_synonym transition = "tag \<rightharpoonup> (tag \<rightharpoonup> score)"
type_synonym 'w emission = "tag \<rightharpoonup> ('w \<rightharpoonup> score)"

text \<open>Python's \<open>max\<close> of a list: the first of the greatest items, \<open>ValueError\<close> on \<open>[]\<close>.\<close>

fun py_max :: "'a::linorder list \<Rightarrow> error + 'a" where
  "py_max [] = Inl ValueError"
| "py_max (x # xs) = Inr (fold (\<lambda>y m. if m < y then y else m) xs x)"

text \<open>Python's list indexing: a negative index counts from the end.\<close>

definition list_index :: "'a list \<Rightarrow> int \<Rightarrow> error + 'a" where
  "list_index xs i =
     (let n = int (length xs); k = (if i < 0 then n + i else i)
      in if 0 \<le> k \<and> k < n then Inr (xs ! nat k) else Inl IndexError)"

section \<open>Module 2: training procedure\<close>

text \<open>
  The module-level tag set \<open>pos\<close> is a Python set; the model takes a list that enumerates
  it in the order Python iterates over it. \<open>empty_dic\<close> ignores its argument and reads the
  module-level \<open>pos\<close>, which the model passes explicitly; its values are the integer \<open>0\<close>,
  a count in the training procedure and a backpointer cell in the decoder.
\<close>

definition empty_dic :: "tag list \<Rightarrow> (tag \<rightharpoonup> 'a::zero)" where
  "empty_dic pos = (\<lambda>p. if p \<in> set pos then Some 0 else None)"

text \<open>The conversion to log base 2 that every training function applies to a probability.\<close>

definition log_prob :: "real \<Rightarrow> score" where
  "log_prob p = (if p \<noteq> 0 then Fin (log 2 p) else NegInf)"

definition find_init_prob :: "tag list \<Rightarrow> tag list \<Rightarrow> error + initial" where
  "find_init_prob training_sent_init pos =
     (if pos \<noteq> [] \<and> training_sent_init = [] then Inl ZeroDivisionError
      else Inr (\<lambda>p. if p \<in> set pos
                     then Some (log_prob (real (count_list training_sent_init p)
                                           / real (length training_sent_init)))
                     else None))"

fun count_transitions ::
  "tag list \<Rightarrow> (tag \<rightharpoonup> (tag \<rightharpoonup> nat)) \<Rightarrow> error + (tag \<rightharpoonup> (tag \<rightharpoonup> nat))"
where
  "count_transitions (a # b # rest) pos_counts =
     (case pos_counts a of
        None \<Rightarrow> Inl KeyError
      | Some row \<Rightarrow>
          (case row b of
             None \<Rightarrow> Inl KeyError
           | Some c \<Rightarrow> count_transitions (b # rest) (pos_counts(a \<mapsto> row(b \<mapsto> c + 1)))))"
| "count_transitions _ pos_counts = Inr pos_counts"

text \<open>
  \<open>total_count\<close> is a \<open>Counter\<close> of the training tags: a tag that does not occur counts 0,
  and dividing by it raises \<open>ZeroDivisionError\<close>.
\<close>

definition find_trans_prob :: "tag list \<Rightarrow> tag list \<Rightarrow> error + transition" where
  "find_trans_prob training_tags pos =
     (case count_transitions training_tags (\<lambda>p. if p \<in> set pos then Some (empty_dic pos) else None) of
        Inl x \<Rightarrow> Inl x
      | Inr pos_counts \<Rightarrow>
          (if \<exists>tag \<in> set pos. count_list training_tags tag = 0 then Inl ZeroDivisionError
           else Inr (\<lambda>tag. map_option
                       (\<lambda>row word. map_option
                          (\<lambda>c. log_prob (real c / real (count_list training_tags tag))) (row word))
                       (pos_counts tag))))"

fun count_emissions ::
  "('w \<times> tag) list \<Rightarrow> (tag \<rightharpoonup> ('w \<rightharpoonup> nat)) \<Rightarrow> error + (tag \<rightharpoonup> ('w \<rightharpoonup> nat))"
where
  "count_emissions [] pos_counts = Inr pos_counts"
| "count_emissions ((word, tag) # rest) pos_counts =
     (case pos_counts tag of
        None \<Rightarrow> Inl KeyError
      | Some row \<Rightarrow>
          (case row word of
             None \<Rightarrow> count_emissions rest (pos_counts(tag \<mapsto> row(word \<mapsto> 1)))
           | Some c \<Rightarrow> count_emissions rest (pos_counts(tag \<mapsto> row(word \<mapsto> c + 1)))))"

text \<open>\<open>sum(d.values())\<close> for a dictionary of counts.\<close>

definition sum_values :: "('w \<rightharpoonup> nat) \<Rightarrow> nat" where
  "sum_values d = (\<Sum>w \<in> dom d. the (d w))"

definition find_emis_prob :: "('w \<times> tag) list \<Rightarrow> tag list \<Rightarrow> error + 'w emission" where
  "find_emis_prob training_tagged pos =
     (case count_emissions training_tagged (\<lambda>p. if p \<in> set pos then Some Map.empty else None) of
        Inl x \<Rightarrow> Inl x
      | Inr pos_counts \<Rightarrow>
          Inr (\<lambda>tag. map_option
                 (\<lambda>row word. map_option
                    (\<lambda>c. log_prob (real c / real (sum_values row))) (row word))
                 (pos_counts tag)))"

text \<open>
  \<open>laplace_emis_prob\<close> reads the module-level \<open>training_vocab\<close> for \<open>V\<close>; the model takes
  \<open>V\<close> as a parameter. \<open>unseen_values\<close> is assigned inside the loop over the tags, so with
  no tag the \<open>return\<close> finds the name unbound. The second component of the result holds
  the residuals as the code leaves them: probabilities, not logarithms.
\<close>

definition laplace_emis_prob ::
  "('w \<times> tag) list \<Rightarrow> tag list \<Rightarrow> nat \<Rightarrow> error + 'w emission \<times> (tag \<rightharpoonup> real)"
where
  "laplace_emis_prob training_tagged pos V =
     (case count_emissions training_tagged (\<lambda>p. if p \<in> set pos then Some Map.empty else None) of
        Inl x \<Rightarrow> Inl x
      | Inr pos_counts \<Rightarrow>
          (let total_count = (\<lambda>tag. case pos_counts tag of None \<Rightarrow> 0 | Some row \<Rightarrow> sum_values row)
           in if pos = [] then Inl NameError
              else if \<exists>tag \<in> set pos. total_count tag + V = 0 then Inl ZeroDivisionError
              else Inr (\<lambda>tag. map_option
                          (\<lambda>row word. map_option
                             (\<lambda>c. log_prob ((real c + 1) / (real (total_count tag) + real V)))
                             (row word))
                          (pos_counts tag),
                        \<lambda>tag. if tag \<in> set pos
                              then Some (1 / (real (total_count tag) + real V)) else None)))"

subsection \<open>Unknown word handling\<close>

text \<open>\<open>unknown_words = [w for w in test_vocab if w not in training_vocab]\<close>\<close>

definition unknown_words :: "'w list \<Rightarrow> 'w list \<Rightarrow> 'w list" where
  "unknown_words test_vocab training_obs = filter (\<lambda>w. w \<notin> set training_obs) test_vocab"

fun add_emis_word :: "'w emission \<Rightarrow> 'w \<Rightarrow> tag list \<Rightarrow> error + 'w emission" where
  "add_emis_word emis_prob word [] = Inr emis_prob"
| "add_emis_word emis_prob word (j # js) =
     (case emis_prob j of
        None \<Rightarrow> Inl KeyError
      | Some row \<Rightarrow> add_emis_word (emis_prob(j \<mapsto> row(word \<mapsto> Fin 0))) word js)"

fun add_emis :: "'w emission \<Rightarrow> tag list \<Rightarrow> 'w list \<Rightarrow> error + 'w emission" where
  "add_emis emis_prob pos [] = Inr emis_prob"
| "add_emis emis_prob pos (word # ws) =
     (case add_emis_word emis_prob word pos of
        Inl x \<Rightarrow> Inl x
      | Inr emis_prob' \<Rightarrow> add_emis emis_prob' pos ws)"

fun laplace_add_emis_word ::
  "'w emission \<Rightarrow> 'w \<Rightarrow> (tag \<rightharpoonup> real) \<Rightarrow> tag list \<Rightarrow> error + 'w emission"
where
  "laplace_add_emis_word smoothed_emis_prob word unseen_values [] = Inr smoothed_emis_prob"
| "laplace_add_emis_word smoothed_emis_prob word unseen_values (j # js) =
     (case unseen_values j of
        None \<Rightarrow> Inl KeyError
      | Some u \<Rightarrow>
          (case smoothed_emis_prob j of
             None \<Rightarrow> Inl KeyError
           | Some row \<Rightarrow>
               laplace_add_emis_word (smoothed_emis_prob(j \<mapsto> row(word \<mapsto> Fin u)))
                 word unseen_values js))"

fun laplace_add_emis ::
  "'w emission \<Rightarrow> tag list \<Rightarrow> 'w list \<Rightarrow> (tag \<rightharpoonup> real) \<Rightarrow> error + 'w emission"
where
  "laplace_add_emis smoothed_emis_prob pos [] unseen_values = Inr smoothed_emis_prob"
| "laplace_add_emis smoothed_emis_prob pos (word # ws) unseen_values =
     (case laplace_add_emis_word smoothed_emis_prob word unseen_values pos of
        Inl x \<Rightarrow> Inl x
      | Inr smoothed_emis_prob' \<Rightarrow> laplace_add_emis smoothed_emis_prob' pos ws unseen_values)"

section \<open>Module 3: Viterbi tagging\<close>

text \<open>
  \<open>empty_dic_none\<close>, like \<open>empty_dic\<close>, ignores its argument and builds its dictionary
  over the module-level tag set \<open>pos\<close>; both calls of \<open>viterbi_algorithm\<close> pass \<open>pos\<close>
  as \<open>states\<close>, and the model has this one parameter.

  A chart row is created with every tag mapped to \<open>None\<close>, and the loop over the states
  writes every one of these cells before the row is read; the model starts a chart row as
  the empty map.
\<close>

definition init_score :: "'w list \<Rightarrow> initial \<Rightarrow> 'w emission \<Rightarrow> tag \<Rightarrow> error + score" where
  "init_score observations init_prob emis_prob j =
     (case observations of
        [] \<Rightarrow> Inl IndexError
      | current_obs # _ \<Rightarrow>
          (case emis_prob j of
             None \<Rightarrow> Inl KeyError
           | Some ej \<Rightarrow>
               (case ej current_obs of
                  None \<Rightarrow> Inr NegInf
                | Some e \<Rightarrow>
                    (case init_prob j of
                       None \<Rightarrow> Inl KeyError
                     | Some p \<Rightarrow> Inr (p + e)))))"

fun initialization ::
  "'w list \<Rightarrow> initial \<Rightarrow> 'w emission \<Rightarrow> tag list \<Rightarrow> vrow \<times> bprow \<Rightarrow> error + vrow \<times> bprow"
where
  "initialization observations init_prob emis_prob [] (v, b) = Inr (v, b)"
| "initialization observations init_prob emis_prob (j # js) (v, b) =
     (case init_score observations init_prob emis_prob j of
        Inl x \<Rightarrow> Inl x
      | Inr s \<Rightarrow>
          initialization observations init_prob emis_prob js
            (v(j \<mapsto> s), b(j \<mapsto> Str ''origin'')))"

fun options ::
  "vrow \<Rightarrow> transition \<Rightarrow> tag \<Rightarrow> score \<Rightarrow> tag list \<Rightarrow> error + (score \<times> tag) list"
where
  "options prev trans_prob j e [] = Inr []"
| "options prev trans_prob j e (i # rest) =
     (case prev i of
        None \<Rightarrow> Inl KeyError
      | Some vi \<Rightarrow>
          (case trans_prob i of
             None \<Rightarrow> Inl KeyError
           | Some ti \<Rightarrow>
               (case ti j of
                  None \<Rightarrow> Inl KeyError
                | Some tij \<Rightarrow>
                    (case options prev trans_prob j e rest of
                       Inl x \<Rightarrow> Inl x
                     | Inr os \<Rightarrow> Inr ((vi + tij + e, i) # os)))))"

definition rec_cell ::
  "vrow \<Rightarrow> transition \<Rightarrow> 'w emission \<Rightarrow> tag list \<Rightarrow> 'w \<Rightarrow> tag \<Rightarrow> error + (score \<times> tag) option"
where
  "rec_cell prev trans_prob emis_prob states current_obs j =
     (case emis_prob j of
        None \<Rightarrow> Inl KeyError
      | Some ej \<Rightarrow>
          (case ej current_obs of
             None \<Rightarrow> Inr None
           | Some e \<Rightarrow>
               (case options prev trans_prob j e states of
                  Inl x \<Rightarrow> Inl x
                | Inr os \<Rightarrow>
                    (case py_max os of
                       Inl x \<Rightarrow> Inl x
                     | Inr maximum \<Rightarrow> Inr (Some maximum)))))"

fun recursion_row ::
  "vrow \<Rightarrow> transition \<Rightarrow> 'w emission \<Rightarrow> tag list \<Rightarrow> 'w \<Rightarrow> tag list \<Rightarrow> vrow \<times> bprow
     \<Rightarrow> error + vrow \<times> bprow"
where
  "recursion_row prev trans_prob emis_prob states current_obs [] (v, b) = Inr (v, b)"
| "recursion_row prev trans_prob emis_prob states current_obs (j # js) (v, b) =
     (case rec_cell prev trans_prob emis_prob states current_obs j of
        Inl x \<Rightarrow> Inl x
      | Inr None \<Rightarrow>
          recursion_row prev trans_prob emis_prob states current_obs js (v(j \<mapsto> NegInf), b)
      | Inr (Some maximum) \<Rightarrow>
          recursion_row prev trans_prob emis_prob states current_obs js
            (v(j \<mapsto> fst maximum), b(j \<mapsto> Str (snd maximum))))"

fun recursion ::
  "vrow \<Rightarrow> transition \<Rightarrow> 'w emission \<Rightarrow> tag list \<Rightarrow> 'w list \<Rightarrow> error + (vrow \<times> bprow) list"
where
  "recursion prev trans_prob emis_prob states [] = Inr []"
| "recursion prev trans_prob emis_prob states (current_obs # later) =
     (case recursion_row prev trans_prob emis_prob states current_obs states
             (Map.empty, empty_dic states) of
        Inl x \<Rightarrow> Inl x
      | Inr (v, b) \<Rightarrow>
          (case recursion v trans_prob emis_prob states later of
             Inl x \<Rightarrow> Inl x
           | Inr rows \<Rightarrow> Inr ((v, b) # rows)))"

text \<open>
  The chart after the initialization and the recursion step: row \<open>t\<close> is the pair of
  \<open>viterbi[t]\<close> and \<open>backpointer[t]\<close>. There are \<open>T\<close> rows, none for \<open>T = 0\<close>.
\<close>

definition viterbi_chart ::
  "'w list \<Rightarrow> tag list \<Rightarrow> initial \<Rightarrow> transition \<Rightarrow> 'w emission \<Rightarrow> error + (vrow \<times> bprow) list"
where
  "viterbi_chart observations states init_prob trans_prob emis_prob =
     (case initialization observations init_prob emis_prob states (Map.empty, empty_dic states) of
        Inl x \<Rightarrow> Inl x
      | Inr (v0, b0) \<Rightarrow>
          (case observations of
             [] \<Rightarrow> Inr []
           | _ # later \<Rightarrow>
               (case recursion v0 trans_prob emis_prob states later of
                  Inl x \<Rightarrow> Inl x
                | Inr rows \<Rightarrow> Inr ((v0, b0) # rows))))"

fun last_round_list :: "vrow \<Rightarrow> tag list \<Rightarrow> error + (score \<times> tag) list" where
  "last_round_list last_round [] = Inr []"
| "last_round_list last_round (key # keys) =
     (case last_round key of
        None \<Rightarrow> Inl KeyError
      | Some s \<Rightarrow>
          (case last_round_list last_round keys of
             Inl x \<Rightarrow> Inl x
           | Inr l \<Rightarrow> Inr ((s, key) # l)))"

text \<open>
  The termination step: \<open>viterbi\<close> is a dictionary keyed by \<open>0..T-1\<close>, so \<open>viterbi[T-1]\<close>
  is a \<open>KeyError\<close> for \<open>T = 0\<close>.
\<close>

definition termination_step :: "(vrow \<times> bprow) list \<Rightarrow> tag list \<Rightarrow> error + score \<times> tag" where
  "termination_step chart states =
     (if chart = [] then Inl KeyError
      else (case last_round_list (fst (last chart)) states of
              Inl x \<Rightarrow> Inl x
            | Inr l \<Rightarrow> py_max l))"

text \<open>
  The backtracking loop. \<open>backpointer\<close> is a list, so \<open>backpointer[T-1]\<close> follows
  Python's list indexing; \<open>predicted_obs\<close> is appended before the lookup, and an exception
  loses the list.
\<close>

function backtracking :: "bprow list \<Rightarrow> int \<Rightarrow> cell \<Rightarrow> tag list \<Rightarrow> error + tag list" where
  "backtracking backpointer T predicted_obs final_list =
     (case predicted_obs of
        Zero \<Rightarrow>
          (case list_index backpointer (T - 1) of
             Inl x \<Rightarrow> Inl x
           | Inr row \<Rightarrow> Inl KeyError)
      | Str s \<Rightarrow>
          (if s = ''origin'' then Inr final_list
           else (case list_index backpointer (T - 1) of
                   Inl x \<Rightarrow> Inl x
                 | Inr row \<Rightarrow>
                     (case row s of
                        None \<Rightarrow> Inl KeyError
                      | Some c \<Rightarrow> backtracking backpointer (T - 1) c (final_list @ [s])))))"
  by pat_completeness auto
termination
proof (relation "measure (\<lambda>(backpointer, T, predicted_obs, final_list). nat (T + int (length backpointer)))")
  show "wf (measure (\<lambda>(backpointer, T, predicted_obs, final_list). nat (T + int (length backpointer))))"
    by simp
next
  fix backpointer :: "bprow list" and T :: int and predicted_obs :: cell
    and final_list :: "tag list" and s :: string and row :: bprow and c :: cell
  assume "list_index backpointer (T - 1) = Inr row"
  then have "0 \<le> T - 1 + int (length backpointer)"
    by (auto simp: list_index_def Let_def split: if_splits)
  then show "((backpointer, T - 1, c, final_list @ [s]), (backpointer, T, predicted_obs, final_list))
      \<in> measure (\<lambda>(backpointer, T, predicted_obs, final_list). nat (T + int (length backpointer)))"
    by simp
qed

definition viterbi_algorithm ::
  "'w list \<Rightarrow> tag list \<Rightarrow> initial \<Rightarrow> transition \<Rightarrow> 'w emission \<Rightarrow> error + tag list"
where
  "viterbi_algorithm observations states init_prob trans_prob emis_prob =
     (case viterbi_chart observations states init_prob trans_prob emis_prob of
        Inl x \<Rightarrow> Inl x
      | Inr chart \<Rightarrow>
          (case termination_step chart states of
             Inl x \<Rightarrow> Inl x
           | Inr maximum \<Rightarrow>
               (case backtracking (map snd chart) (int (length observations)) (Str (snd maximum)) [] of
                  Inl x \<Rightarrow> Inl x
                | Inr final_list \<Rightarrow> Inr (rev final_list))))"

section \<open>Module 4: the calls made by the script\<close>

text \<open>
  The statements the module runs at import time, in their order: the four training calls,
  the unknown words of the test vocabulary and the two patches of the emission tables
  (\<open>train\<close>), and then the first call of \<open>viterbi_algorithm\<close>, which decodes the test
  observations with the unsmoothed table (\<open>tag_unsmoothed\<close>). \<open>pos\<close> is
  \<open>set(training_tags)\<close> and \<open>test_vocab\<close> is \<open>set(test_obs)\<close>, enumerated without
  repetition; \<open>V = len(training_vocab)\<close>.
\<close>

definition train ::
  "('w \<times> tag) list \<Rightarrow> tag list \<Rightarrow> tag list \<Rightarrow> 'w list
     \<Rightarrow> error + initial \<times> transition \<times> 'w emission \<times> 'w emission"
where
  "train training_tagged training_sent_init pos test_vocab =
     (case find_init_prob training_sent_init pos of
        Inl x \<Rightarrow> Inl x
      | Inr init_prob \<Rightarrow>
     (case find_trans_prob (map snd training_tagged) pos of
        Inl x \<Rightarrow> Inl x
      | Inr trans_prob \<Rightarrow>
     (case find_emis_prob training_tagged pos of
        Inl x \<Rightarrow> Inl x
      | Inr emis_prob \<Rightarrow>
     (case laplace_emis_prob training_tagged pos (length (remdups (map fst training_tagged))) of
        Inl x \<Rightarrow> Inl x
      | Inr (smoothed_emis_prob, unseen_values) \<Rightarrow>
     (case add_emis emis_prob pos (unknown_words test_vocab (map fst training_tagged)) of
        Inl x \<Rightarrow> Inl x
      | Inr emis_prob' \<Rightarrow>
     (case laplace_add_emis smoothed_emis_prob pos
             (unknown_words test_vocab (map fst training_tagged)) unseen_values of
        Inl x \<Rightarrow> Inl x
      | Inr smoothed_emis_prob' \<Rightarrow>
          Inr (init_prob, trans_prob, emis_prob', smoothed_emis_prob')))))))"

definition tag_unsmoothed :: "('w \<times> tag) list \<Rightarrow> tag list \<Rightarrow> 'w list \<Rightarrow> error + tag list" where
  "tag_unsmoothed training_tagged training_sent_init test_obs =
     (case train training_tagged training_sent_init (remdups (map snd training_tagged))
             (remdups test_obs) of
        Inl x \<Rightarrow> Inl x
      | Inr (init_prob, trans_prob, emis_prob, smoothed_emis_prob) \<Rightarrow>
          viterbi_algorithm test_obs (remdups (map snd training_tagged))
            init_prob trans_prob emis_prob)"

section \<open>Quantities the properties are stated with\<close>

text \<open>
  The score of reaching tag \<open>j\<close> from the predecessor \<open>i\<close>, before the emission is added:
  \<open>viterbi[t-1][i] + trans_prob[i][j]\<close>, defined when both entries exist.
\<close>

definition path_score :: "vrow \<Rightarrow> transition \<Rightarrow> tag \<Rightarrow> tag \<Rightarrow> score option" where
  "path_score prev trans_prob i j =
     (case prev i of
        None \<Rightarrow> None
      | Some vi \<Rightarrow>
          (case trans_prob i of
             None \<Rightarrow> None
           | Some ti \<Rightarrow> (case ti j of None \<Rightarrow> None | Some tij \<Rightarrow> Some (vi + tij))))"

text \<open>
  A table entry read back as a probability: 2 to the power of a finite entry. An entry
  that is negative infinity is left out of a row's sum, that is, it adds 0.
\<close>

definition prob_of :: "score \<Rightarrow> real" where
  "prob_of s = (case s of NegInf \<Rightarrow> 0 | Fin x \<Rightarrow> 2 powr x)"

definition row_sum :: "('k \<rightharpoonup> score) \<Rightarrow> real" where
  "row_sum row = (\<Sum>k \<in> dom row. prob_of (the (row k)))"

text \<open>
  The table of counts the first loop of \<open>find_emis_prob\<close> and of \<open>laplace_emis_prob\<close>
  holds after it has read the tagged words \<open>xs\<close>: a row for each tag of \<open>pos\<close>, and in the
  row of a tag an entry for each word seen with it.
\<close>

definition emis_counts :: "tag list \<Rightarrow> ('w \<times> tag) list \<Rightarrow> (tag \<rightharpoonup> ('w \<rightharpoonup> nat))" where
  "emis_counts pos xs =
     (\<lambda>t. if t \<in> set pos
          then Some (\<lambda>w. if (w, t) \<in> set xs then Some (count_list xs (w, t)) else None)
          else None)"

text \<open>The same for \<open>find_trans_prob\<close>, after it has counted the pairs \<open>ps\<close> of adjacent tags.\<close>

definition trans_counts :: "tag list \<Rightarrow> (tag \<times> tag) list \<Rightarrow> (tag \<rightharpoonup> (tag \<rightharpoonup> nat))" where
  "trans_counts pos ps =
     (\<lambda>i. if i \<in> set pos
          then Some (\<lambda>j. if j \<in> set pos then Some (count_list ps (i, j)) else None)
          else None)"

text \<open>The entry \<open>d[j][w]\<close> of a dictionary of dictionaries, when both keys exist.\<close>

definition entry :: "('a \<rightharpoonup> ('b \<rightharpoonup> 'c)) \<Rightarrow> 'a \<Rightarrow> 'b \<Rightarrow> 'c option" where
  "entry d j w = (case d j of None \<Rightarrow> None | Some row \<Rightarrow> row w)"

section \<open>The chart in floating point\<close>

text \<open>
  The order and the equality of two computed sums depend on how the sums are rounded, so the
  initialization and the recursion step are given once more, with the addition of two floats
  as the parameter \<open>fadd\<close>; nothing else differs from the functions of Module 3. A float is
  still a \<open>score\<close>: \<open>Fin x\<close> is the float whose value is \<open>x\<close>, and floats are compared by
  their values.
\<close>

definition init_score_fl ::
  "(score \<Rightarrow> score \<Rightarrow> score) \<Rightarrow> 'w list \<Rightarrow> initial \<Rightarrow> 'w emission \<Rightarrow> tag \<Rightarrow> error + score"
where
  "init_score_fl fadd observations init_prob emis_prob j =
     (case observations of
        [] \<Rightarrow> Inl IndexError
      | current_obs # _ \<Rightarrow>
          (case emis_prob j of
             None \<Rightarrow> Inl KeyError
           | Some ej \<Rightarrow>
               (case ej current_obs of
                  None \<Rightarrow> Inr NegInf
                | Some e \<Rightarrow>
                    (case init_prob j of
                       None \<Rightarrow> Inl KeyError
                     | Some p \<Rightarrow> Inr (fadd p e)))))"

fun initialization_fl ::
  "(score \<Rightarrow> score \<Rightarrow> score) \<Rightarrow> 'w list \<Rightarrow> initial \<Rightarrow> 'w emission \<Rightarrow> tag list \<Rightarrow> vrow \<times> bprow
     \<Rightarrow> error + vrow \<times> bprow"
where
  "initialization_fl fadd observations init_prob emis_prob [] (v, b) = Inr (v, b)"
| "initialization_fl fadd observations init_prob emis_prob (j # js) (v, b) =
     (case init_score_fl fadd observations init_prob emis_prob j of
        Inl x \<Rightarrow> Inl x
      | Inr s \<Rightarrow>
          initialization_fl fadd observations init_prob emis_prob js
            (v(j \<mapsto> s), b(j \<mapsto> Str ''origin'')))"

text \<open>
  \<open>viterbi[t-1][i] + trans_prob[i][j] + emis_prob[j][current_obs]\<close> is two additions, the
  left one first.
\<close>

fun options_fl ::
  "(score \<Rightarrow> score \<Rightarrow> score) \<Rightarrow> vrow \<Rightarrow> transition \<Rightarrow> tag \<Rightarrow> score \<Rightarrow> tag list
     \<Rightarrow> error + (score \<times> tag) list"
where
  "options_fl fadd prev trans_prob j e [] = Inr []"
| "options_fl fadd prev trans_prob j e (i # rest) =
     (case prev i of
        None \<Rightarrow> Inl KeyError
      | Some vi \<Rightarrow>
          (case trans_prob i of
             None \<Rightarrow> Inl KeyError
           | Some ti \<Rightarrow>
               (case ti j of
                  None \<Rightarrow> Inl KeyError
                | Some tij \<Rightarrow>
                    (case options_fl fadd prev trans_prob j e rest of
                       Inl x \<Rightarrow> Inl x
                     | Inr os \<Rightarrow> Inr ((fadd (fadd vi tij) e, i) # os)))))"

definition rec_cell_fl ::
  "(score \<Rightarrow> score \<Rightarrow> score) \<Rightarrow> vrow \<Rightarrow> transition \<Rightarrow> 'w emission \<Rightarrow> tag list \<Rightarrow> 'w \<Rightarrow> tag
     \<Rightarrow> error + (score \<times> tag) option"
where
  "rec_cell_fl fadd prev trans_prob emis_prob states current_obs j =
     (case emis_prob j of
        None \<Rightarrow> Inl KeyError
      | Some ej \<Rightarrow>
          (case ej current_obs of
             None \<Rightarrow> Inr None
           | Some e \<Rightarrow>
               (case options_fl fadd prev trans_prob j e states of
                  Inl x \<Rightarrow> Inl x
                | Inr os \<Rightarrow>
                    (case py_max os of
                       Inl x \<Rightarrow> Inl x
                     | Inr maximum \<Rightarrow> Inr (Some maximum)))))"

fun recursion_row_fl ::
  "(score \<Rightarrow> score \<Rightarrow> score) \<Rightarrow> vrow \<Rightarrow> transition \<Rightarrow> 'w emission \<Rightarrow> tag list \<Rightarrow> 'w \<Rightarrow> tag list
     \<Rightarrow> vrow \<times> bprow \<Rightarrow> error + vrow \<times> bprow"
where
  "recursion_row_fl fadd prev trans_prob emis_prob states current_obs [] (v, b) = Inr (v, b)"
| "recursion_row_fl fadd prev trans_prob emis_prob states current_obs (j # js) (v, b) =
     (case rec_cell_fl fadd prev trans_prob emis_prob states current_obs j of
        Inl x \<Rightarrow> Inl x
      | Inr None \<Rightarrow>
          recursion_row_fl fadd prev trans_prob emis_prob states current_obs js
            (v(j \<mapsto> NegInf), b)
      | Inr (Some maximum) \<Rightarrow>
          recursion_row_fl fadd prev trans_prob emis_prob states current_obs js
            (v(j \<mapsto> fst maximum), b(j \<mapsto> Str (snd maximum))))"

fun recursion_fl ::
  "(score \<Rightarrow> score \<Rightarrow> score) \<Rightarrow> vrow \<Rightarrow> transition \<Rightarrow> 'w emission \<Rightarrow> tag list \<Rightarrow> 'w list
     \<Rightarrow> error + (vrow \<times> bprow) list"
where
  "recursion_fl fadd prev trans_prob emis_prob states [] = Inr []"
| "recursion_fl fadd prev trans_prob emis_prob states (current_obs # later) =
     (case recursion_row_fl fadd prev trans_prob emis_prob states current_obs states
             (Map.empty, empty_dic states) of
        Inl x \<Rightarrow> Inl x
      | Inr (v, b) \<Rightarrow>
          (case recursion_fl fadd v trans_prob emis_prob states later of
             Inl x \<Rightarrow> Inl x
           | Inr rows \<Rightarrow> Inr ((v, b) # rows)))"

definition viterbi_chart_fl ::
  "(score \<Rightarrow> score \<Rightarrow> score) \<Rightarrow> 'w list \<Rightarrow> tag list \<Rightarrow> initial \<Rightarrow> transition \<Rightarrow> 'w emission
     \<Rightarrow> error + (vrow \<times> bprow) list"
where
  "viterbi_chart_fl fadd observations states init_prob trans_prob emis_prob =
     (case initialization_fl fadd observations init_prob emis_prob states
             (Map.empty, empty_dic states) of
        Inl x \<Rightarrow> Inl x
      | Inr (v0, b0) \<Rightarrow>
          (case observations of
             [] \<Rightarrow> Inr []
           | _ # later \<Rightarrow>
               (case recursion_fl fadd v0 trans_prob emis_prob states later of
                  Inl x \<Rightarrow> Inl x
                | Inr rows \<Rightarrow> Inr ((v0, b0) # rows))))"

text \<open>
  The computed \<open>viterbi[t-1][i] + trans_prob[i][j]\<close>, one addition of floats, defined when
  both entries exist.
\<close>

definition path_score_fl ::
  "(score \<Rightarrow> score \<Rightarrow> score) \<Rightarrow> vrow \<Rightarrow> transition \<Rightarrow> tag \<Rightarrow> tag \<Rightarrow> score option"
where
  "path_score_fl fadd prev trans_prob i j =
     (case prev i of
        None \<Rightarrow> None
      | Some vi \<Rightarrow>
          (case trans_prob i of
             None \<Rightarrow> None
           | Some ti \<Rightarrow> (case ti j of None \<Rightarrow> None | Some tij \<Rightarrow> Some (fadd vi tij))))"

subsection \<open>The addition of two doubles\<close>

text \<open>
  A Python float is an IEEE 754 binary64 number, and \<open>+\<close> returns the exact sum rounded to
  the nearest double, a tie going to the double with the even significand. The doubles of a
  binade \<open>2 ^ k \<le> \<bar>x\<bar> < 2 ^ (k + 1)\<close> are the multiples of \<open>2 ^ (k - 52)\<close>; below
  \<open>2 ^ (- 1022)\<close> they are the multiples of \<open>2 ^ (- 1074)\<close>. A sum that rounds to
  \<open>- (2 ^ 1024)\<close> or below is negative infinity, and negative infinity added to a finite
  float or to itself is negative infinity. No table entry of the tagger is greater than 1,
  so no sum of the chart comes near \<open>2 ^ 1024\<close>: positive infinity and, with it,
  not-a-number are not values of \<open>score\<close>, and the exponent of \<open>round_real\<close> is not bounded
  above.
\<close>

definition rne :: "real \<Rightarrow> int" where
  "rne r =
     (let n = \<lfloor>r\<rfloor>; d = r - of_int n
      in if d < 1 / 2 then n else if 1 / 2 < d then n + 1 else if even n then n else n + 1)"

definition expo :: "real \<Rightarrow> int" where
  "expo x = max \<lfloor>log 2 \<bar>x\<bar>\<rfloor> (- 1022)"

definition ulp :: "real \<Rightarrow> real" where
  "ulp x = 2 powr (of_int (expo x) - 52)"

definition round_real :: "real \<Rightarrow> real" where
  "round_real x = (if x = 0 then 0 else of_int (rne (x / ulp x)) * ulp x)"

definition round_double :: "real \<Rightarrow> score" where
  "round_double x = (let r = round_real x in if r \<le> - (2 ^ 1024) then NegInf else Fin r)"

definition float_add :: "score \<Rightarrow> score \<Rightarrow> score" where
  "float_add a b =
     (case a of
        NegInf \<Rightarrow> NegInf
      | Fin x \<Rightarrow> (case b of NegInf \<Rightarrow> NegInf | Fin y \<Rightarrow> round_double (x + y)))"

text \<open>Rounding a table entry of the real-valued training model to a double.\<close>

definition round_score :: "score \<Rightarrow> score" where
  "round_score s = (case s of NegInf \<Rightarrow> NegInf | Fin x \<Rightarrow> round_double x)"

text \<open>
  The tables, in doubles, that the script holds for the one-sentence training file
  \<open>x B x A x B y B y B\<close> and the test tokens \<open>y u u y\<close>, when it decodes with the smoothed
  emission table. The tag A occurs once and B four times, and \<open>V = 2\<close>. The probabilities
  1, 1/2 and 1/4 are exact doubles, of which \<open>math.log2\<close> returns 0, -1 and -2; the
  residual values of the unknown word \<open>u\<close> are the quotients \<open>1/(1+2)\<close>
  (\<open>0x1.5555555555555p-2\<close>) and \<open>1/(4+2)\<close> (\<open>0x1.5555555555555p-3\<close>). The entry of \<open>x\<close>
  under A is the double \<open>math.log2\<close> returns for 2/3 (\<open>-0x1.2b803473f7ad2p-1\<close>); decoding
  \<open>y u u y\<close> does not read it.
\<close>

definition collision_init :: initial where
  "collision_init = [''A'' \<mapsto> NegInf, ''B'' \<mapsto> Fin 0]"

definition collision_trans :: transition where
  "collision_trans =
     [''A'' \<mapsto> [''A'' \<mapsto> NegInf, ''B'' \<mapsto> Fin 0],
      ''B'' \<mapsto> [''A'' \<mapsto> Fin (- 2), ''B'' \<mapsto> Fin (- 1)]]"

definition collision_emis :: "string emission" where
  "collision_emis =
     [''A'' \<mapsto> [''x'' \<mapsto> Fin (- (2634436900273513 / 4503599627370496)),
               ''u'' \<mapsto> Fin (6004799503160661 / 18014398509481984)],
      ''B'' \<mapsto> [''x'' \<mapsto> Fin (- 1), ''y'' \<mapsto> Fin (- 1),
               ''u'' \<mapsto> Fin (6004799503160661 / 36028797018963968)]]"

section \<open>Scores and the maximum\<close>

lemma score_less_simps [simp]:
  "NegInf < Fin x" "\<not> Fin x < NegInf" "\<not> NegInf < NegInf" "(Fin x < Fin y) = (x < y)"
  by (auto simp: less_score_def)

lemma score_plus_NegInf_right [simp]: "a + NegInf = NegInf"
  by (cases a) simp_all

lemma py_max_eq: "xs \<noteq> [] \<Longrightarrow> py_max xs = Inr (Max (set xs))"
proof (cases xs)
  case Nil
  assume "xs \<noteq> []"
  with Nil show ?thesis by simp
next
  case (Cons x ys)
  have "(\<lambda>y m. if m < y then y else m) = (\<lambda>y m::'a. max y m)"
    by (auto simp: fun_eq_iff max_def)
  then have "py_max (x # ys) = Inr (fold max ys x)" by simp
  also have "fold max ys x = Max (set (x # ys))" by (rule Max.set_eq_fold[symmetric])
  finally show ?thesis using Cons by simp
qed

section \<open>The chart\<close>

lemma options_Inr:
  "options prev tp j e states = Inr os \<Longrightarrow>
     (\<forall>i\<in>set states. path_score prev tp i j \<noteq> None) \<and>
     os = map (\<lambda>i. (the (path_score prev tp i j) + e, i)) states"
proof (induction states arbitrary: os)
  case Nil
  then show ?case by simp
next
  case (Cons i rest)
  from Cons.prems obtain vi ti tij os' where
    "prev i = Some vi" "tp i = Some ti" "ti j = Some tij"
    and rest: "options prev tp j e rest = Inr os'" and os: "os = (vi + tij + e, i) # os'"
    by (auto split: option.splits sum.splits)
  then have "path_score prev tp i j = Some (vi + tij)"
    by (simp add: path_score_def)
  with Cons.IH[OF rest] os show ?case by simp
qed

lemma options_total:
  "\<forall>i\<in>set states. path_score prev tp i j \<noteq> None \<Longrightarrow> \<exists>os. options prev tp j e states = Inr os"
proof (induction states)
  case Nil
  then show ?case by simp
next
  case (Cons i rest)
  then obtain os where os: "options prev tp j e rest = Inr os" by auto
  from Cons.prems have "path_score prev tp i j \<noteq> None" by simp
  then obtain vi ti tij where "prev i = Some vi" "tp i = Some ti" "ti j = Some tij"
    by (auto simp: path_score_def split: option.splits)
  with os show ?case by simp
qed

lemma recursion_row_Inr:
  "recursion_row prev tp ep states w js (v, b) = Inr (v', b') \<Longrightarrow>
     (\<forall>j. j \<notin> set js \<longrightarrow> v' j = v j \<and> b' j = b j) \<and>
     (\<forall>j\<in>set js.
        (rec_cell prev tp ep states w j = Inr None \<and> v' j = Some NegInf \<and> b' j = b j) \<or>
        (\<exists>m. rec_cell prev tp ep states w j = Inr (Some m) \<and>
             v' j = Some (fst m) \<and> b' j = Some (Str (snd m))))"
proof (induction js arbitrary: v b)
  case Nil
  then show ?case by simp
next
  case (Cons j0 js)
  from Cons.prems obtain r where r: "rec_cell prev tp ep states w j0 = Inr r"
    by (auto split: sum.splits)
  show ?case
  proof (cases r)
    case None
    with r Cons.prems have "recursion_row prev tp ep states w js (v(j0 \<mapsto> NegInf), b) = Inr (v', b')"
      by simp
    from Cons.IH[OF this] have
      out: "\<And>j. j \<notin> set js \<Longrightarrow> v' j = (v(j0 \<mapsto> NegInf)) j \<and> b' j = b j"
      and inn: "\<And>j. j \<in> set js \<Longrightarrow>
        (rec_cell prev tp ep states w j = Inr None \<and> v' j = Some NegInf \<and> b' j = b j) \<or>
        (\<exists>m. rec_cell prev tp ep states w j = Inr (Some m) \<and>
             v' j = Some (fst m) \<and> b' j = Some (Str (snd m)))"
      by blast+
    show ?thesis
    proof (rule conjI; intro allI impI ballI)
      fix j assume "j \<notin> set (j0 # js)"
      then show "v' j = v j \<and> b' j = b j" using out[of j] by simp
    next
      fix j assume j: "j \<in> set (j0 # js)"
      show "(rec_cell prev tp ep states w j = Inr None \<and> v' j = Some NegInf \<and> b' j = b j) \<or>
        (\<exists>m. rec_cell prev tp ep states w j = Inr (Some m) \<and>
             v' j = Some (fst m) \<and> b' j = Some (Str (snd m)))"
      proof (cases "j \<in> set js")
        case True
        then show ?thesis by (rule inn)
      next
        case False
        with j have "j = j0" by simp
        with False out[of j0] r None show ?thesis by simp
      qed
    qed
  next
    case (Some m)
    with r Cons.prems have
      "recursion_row prev tp ep states w js (v(j0 \<mapsto> fst m), b(j0 \<mapsto> Str (snd m))) = Inr (v', b')"
      by simp
    from Cons.IH[OF this] have
      out: "\<And>j. j \<notin> set js \<Longrightarrow>
              v' j = (v(j0 \<mapsto> fst m)) j \<and> b' j = (b(j0 \<mapsto> Str (snd m))) j"
      and inn: "\<And>j. j \<in> set js \<Longrightarrow>
        (rec_cell prev tp ep states w j = Inr None \<and> v' j = Some NegInf \<and>
           b' j = (b(j0 \<mapsto> Str (snd m))) j) \<or>
        (\<exists>m. rec_cell prev tp ep states w j = Inr (Some m) \<and>
             v' j = Some (fst m) \<and> b' j = Some (Str (snd m)))"
      by blast+
    show ?thesis
    proof (rule conjI; intro allI impI ballI)
      fix j assume "j \<notin> set (j0 # js)"
      then show "v' j = v j \<and> b' j = b j" using out[of j] by simp
    next
      fix j assume j: "j \<in> set (j0 # js)"
      show "(rec_cell prev tp ep states w j = Inr None \<and> v' j = Some NegInf \<and> b' j = b j) \<or>
        (\<exists>m. rec_cell prev tp ep states w j = Inr (Some m) \<and>
             v' j = Some (fst m) \<and> b' j = Some (Str (snd m)))"
      proof (cases "j \<in> set js")
        case True
        from inn[OF True] show ?thesis
        proof
          assume a: "rec_cell prev tp ep states w j = Inr None \<and> v' j = Some NegInf \<and>
             b' j = (b(j0 \<mapsto> Str (snd m))) j"
          with r Some have "j \<noteq> j0" by auto
          with a show ?thesis by simp
        next
          assume "\<exists>m. rec_cell prev tp ep states w j = Inr (Some m) \<and>
             v' j = Some (fst m) \<and> b' j = Some (Str (snd m))"
          then show ?thesis by blast
        qed
      next
        case False
        with j have "j = j0" by simp
        with False out[of j0] r Some show ?thesis by simp
      qed
    qed
  qed
qed

lemma recursion_Inr:
  "recursion prev tp ep states ws = Inr rows \<Longrightarrow>
     length rows = length ws \<and>
     (\<forall>k<length ws.
        recursion_row (if k = 0 then prev else fst (rows ! (k - 1))) tp ep states (ws ! k) states
          (Map.empty, empty_dic states) = Inr (rows ! k))"
proof (induction ws arbitrary: prev rows)
  case Nil
  then show ?case by simp
next
  case (Cons w ws)
  from Cons.prems obtain v b rest where
    row: "recursion_row prev tp ep states w states (Map.empty, empty_dic states) = Inr (v, b)"
    and rest: "recursion v tp ep states ws = Inr rest" and rows: "rows = (v, b) # rest"
    by (auto split: sum.splits)
  from Cons.IH[OF rest] have len: "length rest = length ws"
    and step: "\<And>k. k < length ws \<Longrightarrow>
        recursion_row (if k = 0 then v else fst (rest ! (k - 1))) tp ep states (ws ! k) states
          (Map.empty, empty_dic states) = Inr (rest ! k)"
    by auto
  show ?case
  proof (intro conjI allI impI)
    show "length rows = length (w # ws)" using len rows by simp
  next
    fix k assume k: "k < length (w # ws)"
    show "recursion_row (if k = 0 then prev else fst (rows ! (k - 1))) tp ep states ((w # ws) ! k) states
          (Map.empty, empty_dic states) = Inr (rows ! k)"
    proof (cases k)
      case 0
      then show ?thesis using row rows by simp
    next
      case (Suc n)
      with k have n: "n < length ws" by simp
      from step[OF n] show ?thesis using Suc rows by (cases n) simp_all
    qed
  qed
qed

lemma viterbi_chart_Inr:
  assumes "viterbi_chart obs states ip tp ep = Inr chart"
  shows "length chart = length obs"
    and "obs \<noteq> [] \<Longrightarrow> initialization obs ip ep states (Map.empty, empty_dic states) = Inr (chart ! 0)"
    and "0 < t \<Longrightarrow> t < length obs \<Longrightarrow>
          recursion_row (fst (chart ! (t - 1))) tp ep states (obs ! t) states
            (Map.empty, empty_dic states) = Inr (chart ! t)"
proof -
  show "length chart = length obs"
  proof (cases obs)
    case Nil
    with assms show ?thesis by (auto simp: viterbi_chart_def split: sum.splits)
  next
    case (Cons w ws)
    with assms obtain v0 b0 rows where rows: "recursion v0 tp ep states ws = Inr rows"
      and chart: "chart = (v0, b0) # rows"
      by (auto simp: viterbi_chart_def split: sum.splits)
    from recursion_Inr[OF rows] chart Cons show ?thesis by simp
  qed
  show "initialization obs ip ep states (Map.empty, empty_dic states) = Inr (chart ! 0)" if "obs \<noteq> []"
    using assms that by (auto simp: viterbi_chart_def split: sum.splits list.splits)
  show "recursion_row (fst (chart ! (t - 1))) tp ep states (obs ! t) states
            (Map.empty, empty_dic states) = Inr (chart ! t)" if t: "0 < t" "t < length obs"
  proof -
    from assms t obtain v0 b0 w ws rows where
      obs: "obs = w # ws" and rows: "recursion v0 tp ep states ws = Inr rows"
      and chart: "chart = (v0, b0) # rows"
      by (auto simp: viterbi_chart_def split: sum.splits list.splits)
    from t obs obtain k where k: "t = Suc k" "k < length ws" by (cases t) auto
    from recursion_Inr[OF rows] k have
      "recursion_row (if k = 0 then v0 else fst (rows ! (k - 1))) tp ep states (ws ! k) states
          (Map.empty, empty_dic states) = Inr (rows ! k)" by blast
    then show ?thesis using k obs chart by (cases k) simp_all
  qed
qed

declare backtracking.simps [simp del]

lemma initialization_Inr:
  "initialization obs ip ep js (v, b) = Inr (v', b') \<Longrightarrow>
     (\<forall>j. j \<notin> set js \<longrightarrow> v' j = v j \<and> b' j = b j) \<and>
     (\<forall>j\<in>set js. \<exists>s. init_score obs ip ep j = Inr s \<and> v' j = Some s \<and>
        b' j = Some (Str ''origin''))"
proof (induction js arbitrary: v b)
  case Nil
  then show ?case by simp
next
  case (Cons j0 js)
  from Cons.prems obtain s where s: "init_score obs ip ep j0 = Inr s"
    and rest: "initialization obs ip ep js (v(j0 \<mapsto> s), b(j0 \<mapsto> Str ''origin'')) = Inr (v', b')"
    by (auto split: sum.splits)
  from Cons.IH[OF rest] have
    out: "\<And>j. j \<notin> set js \<Longrightarrow>
            v' j = (v(j0 \<mapsto> s)) j \<and> b' j = (b(j0 \<mapsto> Str ''origin'')) j"
    and inn: "\<And>j. j \<in> set js \<Longrightarrow> \<exists>s. init_score obs ip ep j = Inr s \<and> v' j = Some s \<and>
        b' j = Some (Str ''origin'')"
    by blast+
  show ?case
  proof (rule conjI; intro allI impI ballI)
    fix j assume "j \<notin> set (j0 # js)"
    then show "v' j = v j \<and> b' j = b j" using out[of j] by simp
  next
    fix j assume j: "j \<in> set (j0 # js)"
    show "\<exists>s. init_score obs ip ep j = Inr s \<and> v' j = Some s \<and> b' j = Some (Str ''origin'')"
    proof (cases "j \<in> set js")
      case True
      then show ?thesis by (rule inn)
    next
      case False
      with j have "j = j0" by simp
      with False out[of j0] s show ?thesis by simp
    qed
  qed
qed

lemma mono_fst_lex: "mono (fst :: score \<times> tag \<Rightarrow> score)"
  by (rule monoI) (auto simp: less_eq_prod_def)

lemma rec_cell_Some:
  assumes "rec_cell prev tp ep states w j = Inr (Some m)"
  shows "states \<noteq> []" and "\<forall>i\<in>set states. path_score prev tp i j \<noteq> None"
    and "\<exists>ej e. ep j = Some ej \<and> ej w = Some e \<and>
           m = Max ((\<lambda>i. (the (path_score prev tp i j) + e, i)) ` set states)"
    and "snd m \<in> set states"
proof -
  from assms obtain ej e os where ej: "ep j = Some ej" "ej w = Some e"
    and os: "options prev tp j e states = Inr os" and m: "py_max os = Inr m"
    by (auto simp: rec_cell_def split: option.splits sum.splits)
  from m have ne: "os \<noteq> []" by (cases os) auto
  from options_Inr[OF os] have def: "\<forall>i\<in>set states. path_score prev tp i j \<noteq> None"
    and os_eq: "os = map (\<lambda>i. (the (path_score prev tp i j) + e, i)) states" by blast+
  from ne os_eq show st: "states \<noteq> []" by auto
  from def show "\<forall>i\<in>set states. path_score prev tp i j \<noteq> None" .
  from py_max_eq[OF ne] m have mm: "m = Max (set os)" by simp
  with os_eq have m_eq: "m = Max ((\<lambda>i. (the (path_score prev tp i j) + e, i)) ` set states)"
    by simp
  with ej show "\<exists>ej e. ep j = Some ej \<and> ej w = Some e \<and>
           m = Max ((\<lambda>i. (the (path_score prev tp i j) + e, i)) ` set states)" by blast
  have "Max (set os) \<in> set os" using ne by (intro Max_in) auto
  with mm os_eq show "snd m \<in> set states" by auto
qed

lemma rec_cell_None:
  "rec_cell prev tp ep states w j = Inr None \<Longrightarrow> \<exists>ej. ep j = Some ej \<and> ej w = None"
  by (auto simp: rec_cell_def split: option.splits sum.splits)

lemma chart_backpointer_first:
  assumes "viterbi_chart obs states ip tp ep = Inr chart" "obs \<noteq> []"
  shows "snd (chart ! 0) j = (if j \<in> set states then Some (Str ''origin'') else None)"
proof -
  from viterbi_chart_Inr(2)[OF assms] have
    "initialization obs ip ep states (Map.empty, empty_dic states) = Inr (fst (chart ! 0), snd (chart ! 0))"
    by simp
  from initialization_Inr[OF this] show ?thesis
    by (auto simp: empty_dic_def)
qed

lemma chart_backpointer_later:
  assumes "viterbi_chart obs states ip tp ep = Inr chart" "0 < t" "t < length obs"
    and "snd (chart ! t) j = Some c"
  shows "c = Zero \<or> (\<exists>i\<in>set states. c = Str i)"
proof -
  from viterbi_chart_Inr(3)[OF assms(1,2,3)] have row:
    "recursion_row (fst (chart ! (t - 1))) tp ep states (obs ! t) states
       (Map.empty, empty_dic states) = Inr (fst (chart ! t), snd (chart ! t))"
    by simp
  show ?thesis
  proof (cases "j \<in> set states")
    case False
    with recursion_row_Inr[OF row] assms(4) show ?thesis
      by (auto simp: empty_dic_def)
  next
    case True
    with recursion_row_Inr[OF row] have
      "(snd (chart ! t) j = empty_dic states j) \<or>
       (\<exists>m. rec_cell (fst (chart ! (t - 1))) tp ep states (obs ! t) j = Inr (Some m) \<and>
            snd (chart ! t) j = Some (Str (snd m)))" by blast
    then show ?thesis
    proof
      assume "snd (chart ! t) j = empty_dic states j"
      with True assms(4) show ?thesis by (simp add: empty_dic_def zero_cell_def)
    next
      assume "\<exists>m. rec_cell (fst (chart ! (t - 1))) tp ep states (obs ! t) j = Inr (Some m) \<and>
            snd (chart ! t) j = Some (Str (snd m))"
      then obtain m where m: "rec_cell (fst (chart ! (t - 1))) tp ep states (obs ! t) j = Inr (Some m)"
        "snd (chart ! t) j = Some (Str (snd m))" by blast
      from rec_cell_Some(4)[OF m(1)] m(2) assms(4) show ?thesis by auto
    qed
  qed
qed

section \<open>Termination step and backtracking\<close>

lemma backtracking_origin: "backtracking bp T (Str ''origin'') acc = Inr acc"
  by (simp add: backtracking.simps)

lemma backtracking_Zero: "backtracking bp T Zero acc \<noteq> Inr res"
  by (simp add: backtracking.simps split: sum.splits)

lemma backtracking_step:
  "s \<noteq> ''origin'' \<Longrightarrow> n < length bp \<Longrightarrow>
     backtracking bp (int (Suc n)) (Str s) acc =
       (case (bp ! n) s of None \<Rightarrow> Inl KeyError
        | Some c \<Rightarrow> backtracking bp (int n) c (acc @ [s]))"
  by (subst backtracking.simps) (simp add: list_index_def cong: option.case_cong)

lemma backtracking_chain:
  assumes origin: "''origin'' \<notin> set states"
    and first: "\<And>j c. (bp ! 0) j = Some c \<Longrightarrow> c = Str ''origin''"
    and later: "\<And>t j c. 0 < t \<Longrightarrow> t < length bp \<Longrightarrow> (bp ! t) j = Some c \<Longrightarrow>
                  c = Zero \<or> (\<exists>i\<in>set states. c = Str i)"
  shows "n \<le> length bp \<Longrightarrow> 0 < n \<Longrightarrow> s \<in> set states \<Longrightarrow>
     backtracking bp (int n) (Str s) acc = Inr res \<Longrightarrow>
     \<exists>chain. res = acc @ chain \<and> length chain = n \<and> hd chain = s \<and>
       (\<forall>t. Suc t < n \<longrightarrow> (bp ! Suc t) (rev chain ! Suc t) = Some (Str (rev chain ! t))) \<and>
       (bp ! 0) (rev chain ! 0) = Some (Str ''origin'')"
proof (induction n arbitrary: s acc)
  case 0
  then show ?case by simp
next
  case (Suc n)
  from Suc.prems origin have s: "s \<noteq> ''origin''" and n: "n < length bp" by auto
  from backtracking_step[OF s n] Suc.prems(4) obtain c where
    c: "(bp ! n) s = Some c" and run: "backtracking bp (int n) c (acc @ [s]) = Inr res"
    by (auto split: option.splits)
  show ?case
  proof (cases "n = 0")
    case True
    with c first have "c = Str ''origin''" by simp
    with run have "res = acc @ [s]" by (simp add: backtracking_origin)
    with True c \<open>c = Str ''origin''\<close> show ?thesis by simp
  next
    case False
    then have pos: "0 < n" by simp
    from later[OF pos n c] run obtain i where i: "i \<in> set states" "c = Str i"
      by (auto simp: backtracking_Zero)
    from Suc.IH[of i "acc @ [s]"] n pos i run obtain chain where
      res: "res = (acc @ [s]) @ chain" and len: "length chain = n" and hd: "hd chain = i"
      and links: "\<And>t. Suc t < n \<Longrightarrow> (bp ! Suc t) (rev chain ! Suc t) = Some (Str (rev chain ! t))"
      and start: "(bp ! 0) (rev chain ! 0) = Some (Str ''origin'')"
      by auto
    have ne: "chain \<noteq> []" using len pos by auto
    have last: "rev chain ! (n - 1) = i"
      using len pos hd ne by (simp add: rev_nth hd_conv_nth)
    show ?thesis
    proof (intro exI[of _ "s # chain"] conjI allI impI)
      show "res = acc @ s # chain" using res by simp
      show "length (s # chain) = Suc n" using len by simp
      show "hd (s # chain) = s" by simp
      show "(bp ! 0) (rev (s # chain) ! 0) = Some (Str ''origin'')"
        using start len pos by (simp add: nth_append)
    next
      fix t assume t: "Suc t < Suc n"
      show "(bp ! Suc t) (rev (s # chain) ! Suc t) = Some (Str (rev (s # chain) ! t))"
      proof (cases "Suc t < n")
        case True
        with links[OF True] len show ?thesis by (simp add: nth_append)
      next
        case False
        with t have tn: "Suc t = n" by simp
        then have "rev (s # chain) ! Suc t = s" using len by (simp add: nth_append)
        moreover have "rev (s # chain) ! t = i" using tn len last by (auto simp: nth_append)
        ultimately show ?thesis using c i tn by simp
      qed
    qed
  qed
qed

lemma last_round_list_Inr:
  "last_round_list row keys = Inr l \<Longrightarrow> map snd l = keys"
  by (induction keys arbitrary: l) (auto split: option.splits sum.splits)

lemma termination_step_Inr:
  assumes "termination_step chart states = Inr m"
  shows "chart \<noteq> []" and "snd m \<in> set states"
proof -
  from assms show ne: "chart \<noteq> []" by (auto simp: termination_step_def split: if_splits)
  from assms ne obtain l where l: "last_round_list (fst (last chart)) states = Inr l"
    and m: "py_max l = Inr m"
    by (auto simp: termination_step_def split: sum.splits)
  from m have "l \<noteq> []" by (cases l) auto
  from py_max_eq[OF this] m have "m = Max (set l)" by simp
  then have "m \<in> set l" using \<open>l \<noteq> []\<close> by (simp add: Max_in)
  then have "snd m \<in> set (map snd l)" by force
  with last_round_list_Inr[OF l] show "snd m \<in> set states" by simp
qed

lemma viterbi_algorithm_Inr:
  assumes origin: "''origin'' \<notin> set states"
    and run: "viterbi_algorithm obs states ip tp ep = Inr tags"
  shows "length tags = length obs \<and>
     (\<exists>chart maximum.
        viterbi_chart obs states ip tp ep = Inr chart \<and>
        termination_step chart states = Inr maximum \<and>
        tags ! (length obs - 1) = snd maximum \<and>
        (\<forall>t. Suc t < length obs \<longrightarrow>
           snd (chart ! Suc t) (tags ! Suc t) = Some (Str (tags ! t))) \<and>
        snd (chart ! 0) (tags ! 0) = Some (Str ''origin''))"
proof -
  from run obtain chart m final_list where
    chart: "viterbi_chart obs states ip tp ep = Inr chart"
    and m: "termination_step chart states = Inr m"
    and bt: "backtracking (map snd chart) (int (length obs)) (Str (snd m)) [] = Inr final_list"
    and tags: "tags = rev final_list"
    by (auto simp: viterbi_algorithm_def split: sum.splits)
  have len: "length chart = length obs" by (rule viterbi_chart_Inr(1)[OF chart])
  from termination_step_Inr[OF m] len have ne: "obs \<noteq> []" and sm: "snd m \<in> set states"
    by auto
  let ?bp = "map snd chart"
  have first: "\<And>j c. (?bp ! 0) j = Some c \<Longrightarrow> c = Str ''origin''"
    using chart_backpointer_first[OF chart ne] ne len
    by (auto split: if_splits)
  have later: "\<And>t j c. 0 < t \<Longrightarrow> t < length ?bp \<Longrightarrow> (?bp ! t) j = Some c \<Longrightarrow>
                  c = Zero \<or> (\<exists>i\<in>set states. c = Str i)"
    using chart_backpointer_later[OF chart] len by simp
  from backtracking_chain[of states ?bp "length obs" "snd m" "[]" final_list,
      OF origin first later] len ne sm bt
  obtain chain where fl: "final_list = chain" and cl: "length chain = length obs"
    and hd: "hd chain = snd m"
    and links: "\<And>t. Suc t < length obs \<Longrightarrow>
        (?bp ! Suc t) (rev chain ! Suc t) = Some (Str (rev chain ! t))"
    and start: "(?bp ! 0) (rev chain ! 0) = Some (Str ''origin'')"
    by auto
  have "chain \<noteq> []" using cl ne by auto
  then have a: "tags ! (length obs - 1) = snd m"
    using cl hd ne tags fl by (simp add: rev_nth hd_conv_nth)
  have b: "\<forall>t. Suc t < length obs \<longrightarrow>
      snd (chart ! Suc t) (tags ! Suc t) = Some (Str (tags ! t))"
    using links len tags fl by simp
  have c: "snd (chart ! 0) (tags ! 0) = Some (Str ''origin'')"
    using start len ne tags fl by simp
  have "length tags = length obs" using tags fl cl by simp
  with chart m a b c show ?thesis by blast
qed

section \<open>When the decoder returns\<close>

lemma init_score_total:
  "obs \<noteq> [] \<Longrightarrow> ep j \<noteq> None \<Longrightarrow> ip j \<noteq> None \<Longrightarrow> \<exists>s. init_score obs ip ep j = Inr s"
  by (auto simp: init_score_def split: list.splits option.splits)

lemma initialization_total:
  "obs \<noteq> [] \<Longrightarrow> \<forall>j\<in>set js. ep j \<noteq> None \<and> ip j \<noteq> None \<Longrightarrow>
     \<exists>r. initialization obs ip ep js (v, b) = Inr r"
proof (induction js arbitrary: v b)
  case Nil
  then show ?case by simp
next
  case (Cons j js)
  from init_score_total[of obs ep j ip] Cons.prems obtain s where
    "init_score obs ip ep j = Inr s" by auto
  with Cons show ?case by simp
qed

lemma rec_cell_total:
  assumes "states \<noteq> []" "ep j \<noteq> None" "\<forall>i\<in>set states. path_score prev tp i j \<noteq> None"
  shows "\<exists>r. rec_cell prev tp ep states w j = Inr r"
proof -
  from assms(2) obtain ej where ej: "ep j = Some ej" by auto
  show ?thesis
  proof (cases "ej w")
    case None
    with ej show ?thesis by (simp add: rec_cell_def)
  next
    case (Some e)
    from options_total[OF assms(3)] obtain os where os: "options prev tp j e states = Inr os"
      by blast
    from options_Inr[OF os] assms(1) have "os \<noteq> []" by auto
    from py_max_eq[OF this] os ej Some show ?thesis by (simp add: rec_cell_def)
  qed
qed

lemma recursion_row_total:
  "states \<noteq> [] \<Longrightarrow>
   \<forall>j\<in>set js. ep j \<noteq> None \<and> (\<forall>i\<in>set states. path_score prev tp i j \<noteq> None) \<Longrightarrow>
     \<exists>r. recursion_row prev tp ep states w js (v, b) = Inr r"
proof (induction js arbitrary: v b)
  case Nil
  then show ?case by simp
next
  case (Cons j js)
  from rec_cell_total[of states ep j prev tp w] Cons.prems obtain r where
    "rec_cell prev tp ep states w j = Inr r" by auto
  with Cons show ?case by (cases r) simp_all
qed

lemma recursion_row_defined:
  assumes "recursion_row prev tp ep states w states (v, b) = Inr (v', b')" "j \<in> set states"
  shows "v' j \<noteq> None"
proof -
  from recursion_row_Inr[OF assms(1)] assms(2) have
    "v' j = Some NegInf \<or> (\<exists>m::score \<times> tag. v' j = Some (fst m))" by blast
  then show ?thesis by auto
qed

lemma path_score_defined:
  "prev i \<noteq> None \<Longrightarrow> tp i = Some ti \<Longrightarrow> ti j \<noteq> None \<Longrightarrow> path_score prev tp i j \<noteq> None"
  by (auto simp: path_score_def split: option.splits)

lemma recursion_total:
  assumes ne: "states \<noteq> []"
    and keys: "\<forall>j\<in>set states. ep j \<noteq> None \<and> (\<forall>i\<in>set states. \<exists>ti. tp i = Some ti \<and> ti j \<noteq> None)"
  shows "\<forall>i\<in>set states. prev i \<noteq> None \<Longrightarrow> \<exists>rows. recursion prev tp ep states ws = Inr rows"
proof (induction ws arbitrary: prev)
  case Nil
  then show ?case by simp
next
  case (Cons w ws)
  have "\<forall>j\<in>set states. ep j \<noteq> None \<and> (\<forall>i\<in>set states. path_score prev tp i j \<noteq> None)"
  proof (intro ballI conjI)
    fix j assume j: "j \<in> set states"
    with keys show "ep j \<noteq> None" by simp
    fix i assume i: "i \<in> set states"
    with keys j obtain ti where "tp i = Some ti" "ti j \<noteq> None" by blast
    moreover from Cons.prems i have "prev i \<noteq> None" by simp
    ultimately show "path_score prev tp i j \<noteq> None" by (rule path_score_defined[rotated])
  qed
  from recursion_row_total[OF ne this] obtain r where
    "recursion_row prev tp ep states w states (Map.empty, empty_dic states) = Inr r"
    by blast
  then obtain v b where
    row: "recursion_row prev tp ep states w states (Map.empty, empty_dic states) = Inr (v, b)"
    by (cases r) auto
  have "\<forall>i\<in>set states. v i \<noteq> None"
    using recursion_row_defined[OF row] by blast
  from Cons.IH[OF this] row show ?case by auto
qed

lemma viterbi_chart_total:
  assumes "obs \<noteq> []" "states \<noteq> []"
    and "\<forall>j\<in>set states. ip j \<noteq> None \<and> ep j \<noteq> None \<and>
           (\<forall>i\<in>set states. \<exists>ti. tp i = Some ti \<and> ti j \<noteq> None)"
  shows "\<exists>chart. viterbi_chart obs states ip tp ep = Inr chart"
proof -
  from assms(1) obtain w ws where obs: "obs = w # ws" by (cases obs) auto
  have "\<forall>j\<in>set states. ep j \<noteq> None \<and> ip j \<noteq> None" using assms(3) by simp
  from initialization_total[OF assms(1) this] obtain r where
    "initialization obs ip ep states (Map.empty, empty_dic states) = Inr r" by blast
  then obtain v0 b0 where
    init: "initialization obs ip ep states (Map.empty, empty_dic states) = Inr (v0, b0)"
    by (cases r) auto
  have "\<forall>i\<in>set states. v0 i \<noteq> None"
  proof
    fix i assume "i \<in> set states"
    with initialization_Inr[OF init] obtain s where "v0 i = Some s" by blast
    then show "v0 i \<noteq> None" by simp
  qed
  moreover have "\<forall>j\<in>set states. ep j \<noteq> None \<and>
      (\<forall>i\<in>set states. \<exists>ti. tp i = Some ti \<and> ti j \<noteq> None)"
    using assms(3) by simp
  ultimately obtain rows where "recursion v0 tp ep states ws = Inr rows"
    using recursion_total[OF assms(2), of ep tp v0 ws] by blast
  with init obs show ?thesis by (simp add: viterbi_chart_def)
qed

lemma chart_row_defined:
  assumes chart: "viterbi_chart obs states ip tp ep = Inr chart"
    and t: "t < length obs" and j: "j \<in> set states"
  shows "fst (chart ! t) j \<noteq> None"
proof (cases t)
  case 0
  with t have "obs \<noteq> []" by auto
  from viterbi_chart_Inr(2)[OF chart this] have
    "initialization obs ip ep states (Map.empty, empty_dic states)
       = Inr (fst (chart ! 0), snd (chart ! 0))" by simp
  from initialization_Inr[OF this] j obtain s where "fst (chart ! 0) j = Some s" by blast
  with 0 show ?thesis by simp
next
  case (Suc k)
  with t viterbi_chart_Inr(3)[OF chart, of t] have
    "recursion_row (fst (chart ! (t - 1))) tp ep states (obs ! t) states
       (Map.empty, empty_dic states) = Inr (fst (chart ! t), snd (chart ! t))" by simp
  from recursion_row_defined[OF this j] show ?thesis .
qed

lemma last_round_list_total:
  "\<forall>k\<in>set keys. row k \<noteq> None \<Longrightarrow> \<exists>l. last_round_list row keys = Inr l"
  by (induction keys) auto

lemma termination_step_total:
  assumes chart: "viterbi_chart obs states ip tp ep = Inr chart"
    and ne: "obs \<noteq> []" "states \<noteq> []"
  shows "\<exists>m. termination_step chart states = Inr m"
proof -
  have len: "length chart = length obs" by (rule viterbi_chart_Inr(1)[OF chart])
  with ne have cne: "chart \<noteq> []" by auto
  then have "last chart = chart ! (length obs - 1)" using len by (simp add: last_conv_nth)
  with chart_row_defined[OF chart, of "length obs - 1"] ne
  have "\<forall>k\<in>set states. fst (last chart) k \<noteq> None" by simp
  from last_round_list_total[OF this] obtain l where
    l: "last_round_list (fst (last chart)) states = Inr l" by blast
  from last_round_list_Inr[OF l] ne have "l \<noteq> []" by auto
  from py_max_eq[OF this] l cne show ?thesis by (simp add: termination_step_def)
qed

lemma chart_backpointer_covered:
  assumes chart: "viterbi_chart obs states ip tp ep = Inr chart"
    and t: "0 < t" "t < length obs" and j: "j \<in> set states"
    and cov: "ep j = Some ej" "ej (obs ! t) \<noteq> None"
  shows "\<exists>i\<in>set states. snd (chart ! t) j = Some (Str i)"
proof -
  from viterbi_chart_Inr(3)[OF chart t] have row:
    "recursion_row (fst (chart ! (t - 1))) tp ep states (obs ! t) states
       (Map.empty, empty_dic states) = Inr (fst (chart ! t), snd (chart ! t))"
    by simp
  from recursion_row_Inr[OF row] j have
    "rec_cell (fst (chart ! (t - 1))) tp ep states (obs ! t) j = Inr None \<or>
     (\<exists>m. rec_cell (fst (chart ! (t - 1))) tp ep states (obs ! t) j = Inr (Some m) \<and>
          snd (chart ! t) j = Some (Str (snd m)))" by blast
  then show ?thesis
  proof
    assume "rec_cell (fst (chart ! (t - 1))) tp ep states (obs ! t) j = Inr None"
    from rec_cell_None[OF this] cov show ?thesis by auto
  next
    assume "\<exists>m. rec_cell (fst (chart ! (t - 1))) tp ep states (obs ! t) j = Inr (Some m) \<and>
          snd (chart ! t) j = Some (Str (snd m))"
    then obtain m where m: "rec_cell (fst (chart ! (t - 1))) tp ep states (obs ! t) j = Inr (Some m)"
      "snd (chart ! t) j = Some (Str (snd m))" by blast
    from rec_cell_Some(4)[OF m(1)] m(2) show ?thesis by auto
  qed
qed

lemma backtracking_total:
  assumes origin: "''origin'' \<notin> set states"
    and first: "\<And>j. j \<in> set states \<Longrightarrow> (bp ! 0) j = Some (Str ''origin'')"
    and later: "\<And>t j. 0 < t \<Longrightarrow> t < length bp \<Longrightarrow> j \<in> set states \<Longrightarrow>
                  \<exists>i\<in>set states. (bp ! t) j = Some (Str i)"
  shows "n \<le> length bp \<Longrightarrow> 0 < n \<Longrightarrow> s \<in> set states \<Longrightarrow>
     \<exists>res. backtracking bp (int n) (Str s) acc = Inr res"
proof (induction n arbitrary: s acc)
  case 0
  then show ?case by simp
next
  case (Suc n)
  from Suc.prems origin have s: "s \<noteq> ''origin''" and n: "n < length bp" by auto
  show ?case
  proof (cases "n = 0")
    case True
    with first[OF Suc.prems(3)] backtracking_step[OF s n, of acc] show ?thesis
      by (simp add: backtracking_origin)
  next
    case False
    then have pos: "0 < n" by simp
    from later[OF pos n Suc.prems(3)] obtain i where i: "i \<in> set states" "(bp ! n) s = Some (Str i)"
      by blast
    from Suc.IH[of i "acc @ [s]"] n pos i obtain res where
      "backtracking bp (int n) (Str i) (acc @ [s]) = Inr res" by auto
    with backtracking_step[OF s n, of acc] i show ?thesis by simp
  qed
qed

lemma viterbi_algorithm_total:
  assumes origin: "''origin'' \<notin> set states" and ne: "obs \<noteq> []" "states \<noteq> []"
    and keys: "\<forall>j\<in>set states. ip j \<noteq> None \<and> ep j \<noteq> None \<and>
           (\<forall>i\<in>set states. \<exists>ti. tp i = Some ti \<and> ti j \<noteq> None)"
    and cov: "\<forall>t j. 0 < t \<and> t < length obs \<and> j \<in> set states \<longrightarrow>
           (\<exists>ej. ep j = Some ej \<and> ej (obs ! t) \<noteq> None)"
  shows "\<exists>tags. viterbi_algorithm obs states ip tp ep = Inr tags"
proof -
  from viterbi_chart_total[OF ne keys] obtain chart where
    chart: "viterbi_chart obs states ip tp ep = Inr chart" by blast
  have len: "length chart = length obs" by (rule viterbi_chart_Inr(1)[OF chart])
  from termination_step_total[OF chart ne] obtain m where
    m: "termination_step chart states = Inr m" by blast
  from termination_step_Inr(2)[OF m] have sm: "snd m \<in> set states" .
  let ?bp = "map snd chart"
  have first: "\<And>j. j \<in> set states \<Longrightarrow> (?bp ! 0) j = Some (Str ''origin'')"
    using chart_backpointer_first[OF chart ne(1)] ne len by auto
  have later: "\<And>t j. 0 < t \<Longrightarrow> t < length ?bp \<Longrightarrow> j \<in> set states \<Longrightarrow>
                  \<exists>i\<in>set states. (?bp ! t) j = Some (Str i)"
  proof -
    fix t j assume t: "0 < t" "t < length ?bp" and j: "j \<in> set states"
    from t len have t': "t < length obs" by simp
    with cov t(1) j obtain ej where "ep j = Some ej" "ej (obs ! t) \<noteq> None" by blast
    from chart_backpointer_covered[OF chart t(1) t' j this] t' len
    show "\<exists>i\<in>set states. (?bp ! t) j = Some (Str i)" by simp
  qed
  from backtracking_total[of states ?bp "length obs" "snd m" "[]", OF origin first later]
    len ne sm
  obtain res where "backtracking ?bp (int (length obs)) (Str (snd m)) [] = Inr res" by auto
  with chart m show ?thesis by (simp add: viterbi_algorithm_def)
qed

section \<open>What the training functions return\<close>

lemma emis_counts_Nil: "emis_counts pos [] = (\<lambda>p. if p \<in> set pos then Some Map.empty else None)"
  by (simp add: emis_counts_def fun_eq_iff)

lemma emis_counts_step:
  assumes "t \<in> set pos"
  shows "(emis_counts pos xs)(t \<mapsto>
            (\<lambda>w'. if (w', t) \<in> set xs then Some (count_list xs (w', t)) else None)
              (w \<mapsto> count_list xs (w, t) + 1))
         = emis_counts pos (xs @ [(w, t)])"
  using assms by (auto simp: emis_counts_def fun_eq_iff)

lemma count_emissions_eq:
  "snd ` set rest \<subseteq> set pos \<Longrightarrow>
     count_emissions rest (emis_counts pos xs) = Inr (emis_counts pos (xs @ rest))"
proof (induction rest arbitrary: xs)
  case Nil
  then show ?case by simp
next
  case (Cons p rest)
  obtain w t where p: "p = (w, t)" by (cases p)
  with Cons.prems have t: "t \<in> set pos" and rest: "snd ` set rest \<subseteq> set pos" by auto
  let ?row = "\<lambda>w'. if (w', t) \<in> set xs then Some (count_list xs (w', t)) else None"
  have row: "emis_counts pos xs t = Some ?row" using t by (simp add: emis_counts_def)
  have "count_emissions (p # rest) (emis_counts pos xs) =
          count_emissions rest ((emis_counts pos xs)(t \<mapsto> ?row(w \<mapsto> count_list xs (w, t) + 1)))"
  proof (cases "(w, t) \<in> set xs")
    case True
    with p row show ?thesis by simp
  next
    case False
    then have "count_list xs (w, t) = 0" by (simp add: count_list_0_iff)
    with False p row show ?thesis by simp
  qed
  also have "\<dots> = count_emissions rest (emis_counts pos (xs @ [(w, t)]))"
    by (simp only: emis_counts_step[OF t])
  also have "\<dots> = Inr (emis_counts pos ((xs @ [(w, t)]) @ rest))"
    by (rule Cons.IH[OF rest])
  finally show ?case using p by simp
qed

lemma count_emissions_KeyError:
  "\<not> snd ` set rest \<subseteq> set pos \<Longrightarrow> count_emissions rest (emis_counts pos xs) = Inl KeyError"
proof (induction rest arbitrary: xs)
  case Nil
  then show ?case by simp
next
  case (Cons p rest)
  obtain w t where p: "p = (w, t)" by (cases p)
  show ?case
  proof (cases "t \<in> set pos")
    case False
    with p show ?thesis by (simp add: emis_counts_def)
  next
    case True
    with Cons.prems p have rest: "\<not> snd ` set rest \<subseteq> set pos" by auto
    have "count_emissions (p # rest) (emis_counts pos xs) =
          count_emissions rest (emis_counts pos (xs @ [(w, t)]))"
    proof -
      let ?row = "\<lambda>w'. if (w', t) \<in> set xs then Some (count_list xs (w', t)) else None"
      have row: "emis_counts pos xs t = Some ?row" using True by (simp add: emis_counts_def)
      have "count_emissions (p # rest) (emis_counts pos xs) =
          count_emissions rest ((emis_counts pos xs)(t \<mapsto> ?row(w \<mapsto> count_list xs (w, t) + 1)))"
      proof (cases "(w, t) \<in> set xs")
        case True
        with p row show ?thesis by simp
      next
        case False
        then have "count_list xs (w, t) = 0" by (simp add: count_list_0_iff)
        with False p row show ?thesis by simp
      qed
      then show ?thesis by (simp only: emis_counts_step[OF True])
    qed
    with Cons.IH[OF rest] show ?thesis by simp
  qed
qed

text \<open>The number of training words that carry the tag \<open>t\<close>.\<close>

lemma sum_values_emis_row:
  "sum_values (\<lambda>w. if (w, t) \<in> set xs then Some (count_list xs (w, t)) else None)
     = count_list (map snd xs) t"
proof -
  let ?W = "{w. (w, t) \<in> set xs}"
  let ?ys = "filter (\<lambda>p. snd p = t) xs"
  have dom: "dom (\<lambda>w. if (w, t) \<in> set xs then Some (count_list xs (w, t)) else None) = ?W"
    by (auto simp: dom_def)
  have fin: "finite ?W"
  proof (rule finite_subset)
    show "?W \<subseteq> fst ` set xs" by force
    show "finite (fst ` set xs)" by simp
  qed
  have cnt: "\<And>w. count_list xs (w, t) = count_list ?ys (w, t)"
    by (induction xs) auto
  have "sum_values (\<lambda>w. if (w, t) \<in> set xs then Some (count_list xs (w, t)) else None)
          = (\<Sum>w\<in>?W. count_list ?ys (w, t))"
    unfolding sum_values_def dom by (rule sum.cong) (simp_all add: cnt)
  also have "\<dots> = sum (count_list ?ys) ((\<lambda>w. (w, t)) ` ?W)"
    by (subst sum.reindex) (auto simp: inj_on_def)
  also have "\<dots> = length ?ys"
    by (rule sum_count_set) (use fin in \<open>auto simp: image_iff\<close>)
  also have "\<dots> = count_list (map snd xs) t"
    by (induction xs) auto
  finally show ?thesis .
qed

lemma find_emis_prob_eq:
  assumes "snd ` set tagged \<subseteq> set pos"
  shows "find_emis_prob tagged pos =
     Inr (\<lambda>t. if t \<in> set pos
              then Some (\<lambda>w. if (w, t) \<in> set tagged
                             then Some (log_prob (real (count_list tagged (w, t))
                                                  / real (count_list (map snd tagged) t)))
                             else None)
              else None)"
proof -
  have "count_emissions tagged (\<lambda>p. if p \<in> set pos then Some Map.empty else None)
          = Inr (emis_counts pos tagged)"
    using count_emissions_eq[OF assms, of "[]"] by (simp add: emis_counts_Nil)
  then show ?thesis
    by (simp add: find_emis_prob_def emis_counts_def sum_values_emis_row fun_eq_iff)
qed

lemma add_emis_word_Inr:
  "add_emis_word ep word js = Inr ep' \<Longrightarrow>
     (\<forall>j. j \<notin> set js \<longrightarrow> ep' j = ep j) \<and>
     (\<forall>j\<in>set js. \<exists>row. ep j = Some row \<and> ep' j = Some (row(word \<mapsto> Fin 0)))"
proof (induction js arbitrary: ep)
  case Nil
  then show ?case by simp
next
  case (Cons j0 js)
  from Cons.prems obtain row0 where row0: "ep j0 = Some row0"
    and rest: "add_emis_word (ep(j0 \<mapsto> row0(word \<mapsto> Fin 0))) word js = Inr ep'"
    by (auto split: option.splits)
  from Cons.IH[OF rest] have
    out: "\<And>j. j \<notin> set js \<Longrightarrow> ep' j = (ep(j0 \<mapsto> row0(word \<mapsto> Fin 0))) j"
    and inn: "\<And>j. j \<in> set js \<Longrightarrow>
       \<exists>row. (ep(j0 \<mapsto> row0(word \<mapsto> Fin 0))) j = Some row \<and> ep' j = Some (row(word \<mapsto> Fin 0))"
    by blast+
  show ?case
  proof (rule conjI; intro allI impI ballI)
    fix j assume "j \<notin> set (j0 # js)"
    then show "ep' j = ep j" using out[of j] by simp
  next
    fix j assume j: "j \<in> set (j0 # js)"
    show "\<exists>row. ep j = Some row \<and> ep' j = Some (row(word \<mapsto> Fin 0))"
    proof (cases "j \<in> set js")
      case True
      from inn[OF True] row0 show ?thesis by (cases "j = j0") auto
    next
      case False
      with j have "j = j0" by simp
      with False out[of j0] row0 show ?thesis by simp
    qed
  qed
qed

lemma add_emis_word_total:
  "\<forall>j\<in>set js. ep j \<noteq> None \<Longrightarrow> \<exists>ep'. add_emis_word ep word js = Inr ep'"
proof (induction js arbitrary: ep)
  case Nil
  then show ?case by simp
next
  case (Cons j0 js)
  then obtain row0 where row0: "ep j0 = Some row0" by auto
  have "\<forall>j\<in>set js. (ep(j0 \<mapsto> row0(word \<mapsto> Fin 0))) j \<noteq> None" using Cons.prems by simp
  from Cons.IH[OF this] obtain ep' where
    "add_emis_word (ep(j0 \<mapsto> row0(word \<mapsto> Fin 0))) word js = Inr ep'" by blast
  with row0 have "add_emis_word ep word (j0 # js) = Inr ep'" by simp
  then show ?case by blast
qed

lemma add_emis_Inr:
  "\<forall>j\<in>set pos. ep j \<noteq> None \<Longrightarrow> add_emis ep pos ws = Inr ep' \<Longrightarrow>
     (\<forall>j. j \<notin> set pos \<longrightarrow> ep' j = ep j) \<and>
     (\<forall>j\<in>set pos. \<exists>row row'. ep j = Some row \<and> ep' j = Some row' \<and>
        (\<forall>w. row' w = (if w \<in> set ws then Some (Fin 0) else row w)))"
proof (induction ws arbitrary: ep)
  case Nil
  then show ?case by auto
next
  case (Cons word ws)
  from Cons.prems(2) obtain ep1 where w1: "add_emis_word ep word pos = Inr ep1"
    and rest: "add_emis ep1 pos ws = Inr ep'"
    by (auto split: sum.splits)
  from add_emis_word_Inr[OF w1] have
    out1: "\<And>j. j \<notin> set pos \<Longrightarrow> ep1 j = ep j"
    and in1: "\<And>j. j \<in> set pos \<Longrightarrow> \<exists>row. ep j = Some row \<and> ep1 j = Some (row(word \<mapsto> Fin 0))"
    by blast+
  have keys1: "\<forall>j\<in>set pos. ep1 j \<noteq> None"
  proof
    fix j assume "j \<in> set pos"
    from in1[OF this] show "ep1 j \<noteq> None" by auto
  qed
  from Cons.IH[OF keys1 rest] have
    out2: "\<And>j. j \<notin> set pos \<Longrightarrow> ep' j = ep1 j"
    and in2: "\<And>j. j \<in> set pos \<Longrightarrow> \<exists>row row'. ep1 j = Some row \<and> ep' j = Some row' \<and>
        (\<forall>w. row' w = (if w \<in> set ws then Some (Fin 0) else row w))"
    by blast+
  show ?case
  proof (rule conjI; intro allI impI ballI)
    fix j assume "j \<notin> set pos"
    then show "ep' j = ep j" using out1[of j] out2[of j] by simp
  next
    fix j assume j: "j \<in> set pos"
    from in1[OF j] obtain row where row: "ep j = Some row" "ep1 j = Some (row(word \<mapsto> Fin 0))"
      by blast
    from in2[OF j] row obtain row' where row': "ep' j = Some row'"
      "\<forall>w. row' w = (if w \<in> set ws then Some (Fin 0) else (row(word \<mapsto> Fin 0)) w)"
      by auto
    have "\<forall>w. row' w = (if w \<in> set (word # ws) then Some (Fin 0) else row w)"
      using row'(2) by simp
    with row(1) row'(1)
    show "\<exists>row row'. ep j = Some row \<and> ep' j = Some row' \<and>
        (\<forall>w. row' w = (if w \<in> set (word # ws) then Some (Fin 0) else row w))" by blast
  qed
qed

lemma add_emis_total:
  "\<forall>j\<in>set pos. ep j \<noteq> None \<Longrightarrow> \<exists>ep'. add_emis ep pos ws = Inr ep'"
proof (induction ws arbitrary: ep)
  case Nil
  then show ?case by simp
next
  case (Cons word ws)
  from add_emis_word_total[OF Cons.prems] obtain ep1 where
    w1: "add_emis_word ep word pos = Inr ep1" by blast
  have "\<forall>j\<in>set pos. ep1 j \<noteq> None"
  proof
    fix j assume "j \<in> set pos"
    with add_emis_word_Inr[OF w1] obtain row where "ep1 j = Some (row(word \<mapsto> Fin 0))" by blast
    then show "ep1 j \<noteq> None" by simp
  qed
  from Cons.IH[OF this] obtain ep' where "add_emis ep1 pos ws = Inr ep'" by blast
  with w1 have "add_emis ep pos (word # ws) = Inr ep'" by simp
  then show ?case by blast
qed

lemma laplace_add_emis_word_Inr:
  "laplace_add_emis_word ep word un js = Inr ep' \<Longrightarrow>
     (\<forall>j. j \<notin> set js \<longrightarrow> ep' j = ep j) \<and>
     (\<forall>j\<in>set js. \<exists>row u. ep j = Some row \<and> un j = Some u \<and>
        ep' j = Some (row(word \<mapsto> Fin u)))"
proof (induction js arbitrary: ep)
  case Nil
  then show ?case by simp
next
  case (Cons j0 js)
  from Cons.prems obtain row0 u0 where row0: "ep j0 = Some row0" and u0: "un j0 = Some u0"
    and rest: "laplace_add_emis_word (ep(j0 \<mapsto> row0(word \<mapsto> Fin u0))) word un js = Inr ep'"
    by (auto split: option.splits)
  from Cons.IH[OF rest] have
    out: "\<And>j. j \<notin> set js \<Longrightarrow> ep' j = (ep(j0 \<mapsto> row0(word \<mapsto> Fin u0))) j"
    and inn: "\<And>j. j \<in> set js \<Longrightarrow>
       \<exists>row u. (ep(j0 \<mapsto> row0(word \<mapsto> Fin u0))) j = Some row \<and> un j = Some u \<and>
         ep' j = Some (row(word \<mapsto> Fin u))"
    by blast+
  show ?case
  proof (rule conjI; intro allI impI ballI)
    fix j assume "j \<notin> set (j0 # js)"
    then show "ep' j = ep j" using out[of j] by simp
  next
    fix j assume j: "j \<in> set (j0 # js)"
    show "\<exists>row u. ep j = Some row \<and> un j = Some u \<and> ep' j = Some (row(word \<mapsto> Fin u))"
    proof (cases "j \<in> set js")
      case True
      from inn[OF True] row0 u0 show ?thesis by (cases "j = j0") auto
    next
      case False
      with j have "j = j0" by simp
      with False out[of j0] row0 u0 show ?thesis by simp
    qed
  qed
qed

lemma laplace_add_emis_word_total:
  "\<forall>j\<in>set js. ep j \<noteq> None \<and> un j \<noteq> None \<Longrightarrow>
     \<exists>ep'. laplace_add_emis_word ep word un js = Inr ep'"
proof (induction js arbitrary: ep)
  case Nil
  then show ?case by simp
next
  case (Cons j0 js)
  then obtain row0 u0 where row0: "ep j0 = Some row0" "un j0 = Some u0" by auto
  have "\<forall>j\<in>set js. (ep(j0 \<mapsto> row0(word \<mapsto> Fin u0))) j \<noteq> None \<and> un j \<noteq> None"
    using Cons.prems by simp
  from Cons.IH[OF this] obtain ep' where
    "laplace_add_emis_word (ep(j0 \<mapsto> row0(word \<mapsto> Fin u0))) word un js = Inr ep'" by blast
  with row0 have "laplace_add_emis_word ep word un (j0 # js) = Inr ep'" by simp
  then show ?case by blast
qed

lemma laplace_add_emis_Inr:
  "\<forall>j\<in>set pos. ep j \<noteq> None \<and> un j \<noteq> None \<Longrightarrow> laplace_add_emis ep pos ws un = Inr ep' \<Longrightarrow>
     (\<forall>j. j \<notin> set pos \<longrightarrow> ep' j = ep j) \<and>
     (\<forall>j\<in>set pos. \<exists>row row' u. ep j = Some row \<and> un j = Some u \<and> ep' j = Some row' \<and>
        (\<forall>w. row' w = (if w \<in> set ws then Some (Fin u) else row w)))"
proof (induction ws arbitrary: ep)
  case Nil
  then show ?case by auto
next
  case (Cons word ws)
  from Cons.prems(2) obtain ep1 where w1: "laplace_add_emis_word ep word un pos = Inr ep1"
    and rest: "laplace_add_emis ep1 pos ws un = Inr ep'"
    by (auto split: sum.splits)
  from laplace_add_emis_word_Inr[OF w1] have
    out1: "\<And>j. j \<notin> set pos \<Longrightarrow> ep1 j = ep j"
    and in1: "\<And>j. j \<in> set pos \<Longrightarrow>
       \<exists>row u. ep j = Some row \<and> un j = Some u \<and> ep1 j = Some (row(word \<mapsto> Fin u))"
    by blast+
  have keys1: "\<forall>j\<in>set pos. ep1 j \<noteq> None \<and> un j \<noteq> None"
  proof
    fix j assume "j \<in> set pos"
    from in1[OF this] show "ep1 j \<noteq> None \<and> un j \<noteq> None" by auto
  qed
  from Cons.IH[OF keys1 rest] have
    out2: "\<And>j. j \<notin> set pos \<Longrightarrow> ep' j = ep1 j"
    and in2: "\<And>j. j \<in> set pos \<Longrightarrow> \<exists>row row' u. ep1 j = Some row \<and> un j = Some u \<and>
        ep' j = Some row' \<and> (\<forall>w. row' w = (if w \<in> set ws then Some (Fin u) else row w))"
    by blast+
  show ?case
  proof (rule conjI; intro allI impI ballI)
    fix j assume "j \<notin> set pos"
    then show "ep' j = ep j" using out1[of j] out2[of j] by simp
  next
    fix j assume j: "j \<in> set pos"
    from in1[OF j] obtain row u where row: "ep j = Some row" "un j = Some u"
      "ep1 j = Some (row(word \<mapsto> Fin u))"
      by blast
    from in2[OF j] row obtain row' where row': "ep' j = Some row'"
      "\<forall>w. row' w = (if w \<in> set ws then Some (Fin u) else (row(word \<mapsto> Fin u)) w)"
      by auto
    have "\<forall>w. row' w = (if w \<in> set (word # ws) then Some (Fin u) else row w)"
      using row'(2) by simp
    with row(1,2) row'(1)
    show "\<exists>row row' u. ep j = Some row \<and> un j = Some u \<and> ep' j = Some row' \<and>
        (\<forall>w. row' w = (if w \<in> set (word # ws) then Some (Fin u) else row w))" by blast
  qed
qed

lemma laplace_add_emis_total:
  "\<forall>j\<in>set pos. ep j \<noteq> None \<and> un j \<noteq> None \<Longrightarrow> \<exists>ep'. laplace_add_emis ep pos ws un = Inr ep'"
proof (induction ws arbitrary: ep)
  case Nil
  then show ?case by simp
next
  case (Cons word ws)
  from laplace_add_emis_word_total[OF Cons.prems] obtain ep1 where
    w1: "laplace_add_emis_word ep word un pos = Inr ep1" by blast
  have "\<forall>j\<in>set pos. ep1 j \<noteq> None \<and> un j \<noteq> None"
  proof
    fix j assume j: "j \<in> set pos"
    with laplace_add_emis_word_Inr[OF w1] obtain row u where
      "ep1 j = Some (row(word \<mapsto> Fin u))" by blast
    with Cons.prems j show "ep1 j \<noteq> None \<and> un j \<noteq> None" by simp
  qed
  from Cons.IH[OF this] obtain ep' where "laplace_add_emis ep1 pos ws un = Inr ep'" by blast
  with w1 have "laplace_add_emis ep pos (word # ws) un = Inr ep'" by simp
  then show ?case by blast
qed

lemma find_emis_prob_Inr:
  assumes "find_emis_prob tagged pos = Inr ep"
  shows "snd ` set tagged \<subseteq> set pos"
proof (rule ccontr)
  assume "\<not> snd ` set tagged \<subseteq> set pos"
  from count_emissions_KeyError[OF this, of "[]"] assms show False
    by (simp add: find_emis_prob_def emis_counts_Nil)
qed

lemma laplace_emis_prob_Inr:
  assumes "laplace_emis_prob tagged pos V = Inr (sep, un)"
  shows "pos \<noteq> []"
    and "sep = (\<lambda>t. if t \<in> set pos
              then Some (\<lambda>w. if (w, t) \<in> set tagged
                             then Some (log_prob ((real (count_list tagged (w, t)) + 1)
                                                  / (real (count_list (map snd tagged) t) + real V)))
                             else None)
              else None)"
    and "un = (\<lambda>t. if t \<in> set pos
              then Some (1 / (real (count_list (map snd tagged) t) + real V)) else None)"
    and "\<forall>t\<in>set pos. count_list (map snd tagged) t + V \<noteq> 0"
proof -
  have sub: "snd ` set tagged \<subseteq> set pos"
  proof (rule ccontr)
    assume "\<not> snd ` set tagged \<subseteq> set pos"
    from count_emissions_KeyError[OF this, of "[]"] assms show False
      by (simp add: laplace_emis_prob_def emis_counts_Nil)
  qed
  have ce: "count_emissions tagged (\<lambda>p. if p \<in> set pos then Some Map.empty else None)
          = Inr (emis_counts pos tagged)"
    using count_emissions_eq[OF sub, of "[]"] by (simp add: emis_counts_Nil)
  from assms show "pos \<noteq> []"
    by (auto simp: laplace_emis_prob_def ce Let_def split: if_splits)
  from assms have nz: "\<not> (\<exists>tag\<in>set pos.
      (case emis_counts pos tagged tag of None \<Rightarrow> 0 | Some row \<Rightarrow> sum_values row) + V = 0)"
    by (auto simp: laplace_emis_prob_def ce Let_def split: if_splits)
  then show "\<forall>t\<in>set pos. count_list (map snd tagged) t + V \<noteq> 0"
    by (simp add: emis_counts_def sum_values_emis_row)
  from assms \<open>pos \<noteq> []\<close> nz have
    "sep = (\<lambda>tag. map_option
              (\<lambda>row word. map_option
                 (\<lambda>c. log_prob ((real c + 1) /
                    (real (case emis_counts pos tagged tag of None \<Rightarrow> 0 | Some row \<Rightarrow> sum_values row)
                      + real V)))
                 (row word))
              (emis_counts pos tagged tag))"
    and "un = (\<lambda>tag. if tag \<in> set pos
              then Some (1 / (real (case emis_counts pos tagged tag of None \<Rightarrow> 0
                                   | Some row \<Rightarrow> sum_values row) + real V)) else None)"
    by (simp_all add: laplace_emis_prob_def ce Let_def split: if_splits)
  then show "sep = (\<lambda>t. if t \<in> set pos
              then Some (\<lambda>w. if (w, t) \<in> set tagged
                             then Some (log_prob ((real (count_list tagged (w, t)) + 1)
                                                  / (real (count_list (map snd tagged) t) + real V)))
                             else None)
              else None)"
    and "un = (\<lambda>t. if t \<in> set pos
              then Some (1 / (real (count_list (map snd tagged) t) + real V)) else None)"
    by (simp_all add: emis_counts_def sum_values_emis_row fun_eq_iff)
qed

lemma train_steps:
  assumes "train tagged sent_init pos test_vocab = Inr (ip, tp, ep, sep)"
  shows "\<exists>ep0 sep0 un.
     find_init_prob sent_init pos = Inr ip \<and>
     find_trans_prob (map snd tagged) pos = Inr tp \<and>
     find_emis_prob tagged pos = Inr ep0 \<and>
     laplace_emis_prob tagged pos (length (remdups (map fst tagged))) = Inr (sep0, un) \<and>
     add_emis ep0 pos (unknown_words test_vocab (map fst tagged)) = Inr ep \<and>
     laplace_add_emis sep0 pos (unknown_words test_vocab (map fst tagged)) un = Inr sep"
  using assms by (simp add: train_def split: sum.splits prod.splits)

lemma train_Inr:
  assumes tr: "train tagged sent_init pos test_vocab = Inr (ip, tp, ep, sep)"
  shows "snd ` set tagged \<subseteq> set pos" and "pos \<noteq> []"
    and "j \<in> set pos \<Longrightarrow>
          \<exists>row. ep j = Some row \<and>
            (\<forall>w. row w =
               (if w \<in> set (unknown_words test_vocab (map fst tagged)) then Some (Fin 0)
                else if (w, j) \<in> set tagged
                then Some (log_prob (real (count_list tagged (w, j))
                                     / real (count_list (map snd tagged) j)))
                else None))"
    and "j \<in> set pos \<Longrightarrow>
          \<exists>row. sep j = Some row \<and>
            (\<forall>w. row w =
               (if w \<in> set (unknown_words test_vocab (map fst tagged))
                then Some (Fin (1 / (real (count_list (map snd tagged) j)
                                     + real (length (remdups (map fst tagged))))))
                else if (w, j) \<in> set tagged
                then Some (log_prob ((real (count_list tagged (w, j)) + 1)
                                     / (real (count_list (map snd tagged) j)
                                        + real (length (remdups (map fst tagged))))))
                else None))"
    and "j \<notin> set pos \<Longrightarrow> ep j = None \<and> sep j = None"
proof -
  let ?V = "length (remdups (map fst tagged))"
  let ?U = "unknown_words test_vocab (map fst tagged)"
  from train_steps[OF tr] obtain ep0 sep0 un where
    e0: "find_emis_prob tagged pos = Inr ep0"
    and l0: "laplace_emis_prob tagged pos ?V = Inr (sep0, un)"
    and a: "add_emis ep0 pos ?U = Inr ep"
    and la: "laplace_add_emis sep0 pos ?U un = Inr sep"
    by blast
  show sub: "snd ` set tagged \<subseteq> set pos" by (rule find_emis_prob_Inr[OF e0])
  show "pos \<noteq> []" by (rule laplace_emis_prob_Inr(1)[OF l0])
  have ep0: "ep0 = (\<lambda>t. if t \<in> set pos
              then Some (\<lambda>w. if (w, t) \<in> set tagged
                             then Some (log_prob (real (count_list tagged (w, t))
                                                  / real (count_list (map snd tagged) t)))
                             else None)
              else None)"
    using find_emis_prob_eq[OF sub] e0 by simp
  note sep0 = laplace_emis_prob_Inr(2)[OF l0] and un = laplace_emis_prob_Inr(3)[OF l0]
  have k0: "\<forall>j\<in>set pos. ep0 j \<noteq> None" by (simp add: ep0)
  have k1: "\<forall>j\<in>set pos. sep0 j \<noteq> None \<and> un j \<noteq> None" by (simp add: sep0 un)
  note A = add_emis_Inr[OF k0 a] and L = laplace_add_emis_Inr[OF k1 la]
  show "\<exists>row. ep j = Some row \<and>
            (\<forall>w. row w =
               (if w \<in> set ?U then Some (Fin 0)
                else if (w, j) \<in> set tagged
                then Some (log_prob (real (count_list tagged (w, j))
                                     / real (count_list (map snd tagged) j)))
                else None))" if j: "j \<in> set pos"
  proof -
    from A j obtain row row' where "ep0 j = Some row" "ep j = Some row'"
      "\<forall>w. row' w = (if w \<in> set ?U then Some (Fin 0) else row w)" by blast
    moreover from j have "ep0 j = Some (\<lambda>w. if (w, j) \<in> set tagged
                             then Some (log_prob (real (count_list tagged (w, j))
                                                  / real (count_list (map snd tagged) j)))
                             else None)" by (simp add: ep0)
    ultimately show ?thesis by auto
  qed
  show "\<exists>row. sep j = Some row \<and>
            (\<forall>w. row w =
               (if w \<in> set ?U
                then Some (Fin (1 / (real (count_list (map snd tagged) j) + real ?V)))
                else if (w, j) \<in> set tagged
                then Some (log_prob ((real (count_list tagged (w, j)) + 1)
                                     / (real (count_list (map snd tagged) j) + real ?V)))
                else None))" if j: "j \<in> set pos"
  proof -
    from L j obtain row row' u where "sep0 j = Some row" "un j = Some u" "sep j = Some row'"
      "\<forall>w. row' w = (if w \<in> set ?U then Some (Fin u) else row w)" by blast
    moreover from j have "sep0 j = Some (\<lambda>w. if (w, j) \<in> set tagged
                             then Some (log_prob ((real (count_list tagged (w, j)) + 1)
                                     / (real (count_list (map snd tagged) j) + real ?V)))
                             else None)" by (simp add: sep0)
    moreover from j have "un j = Some (1 / (real (count_list (map snd tagged) j) + real ?V))"
      by (simp add: un)
    ultimately show ?thesis by auto
  qed
  show "ep j = None \<and> sep j = None" if "j \<notin> set pos"
    using A L that by (simp add: ep0 sep0)
qed

lemmas eval_defs = train_def find_init_prob_def find_trans_prob_def find_emis_prob_def
  laplace_emis_prob_def unknown_words_def empty_dic_def sum_values_def log_prob_def
  viterbi_algorithm_def viterbi_chart_def init_score_def rec_cell_def termination_step_def
  list_index_def backtracking.simps zero_cell_def entry_def


section \<open>The chart in floating point: what it returns\<close>

text \<open>
  With the exact addition of the idealised floats the second copy is the chart of Module 3.
\<close>

lemma init_score_fl_plus: "init_score_fl (+) obs ip ep j = init_score obs ip ep j"
  by (simp add: init_score_fl_def init_score_def)

lemma initialization_fl_plus:
  "initialization_fl (+) obs ip ep js (v, b) = initialization obs ip ep js (v, b)"
  by (induction js arbitrary: v b) (simp_all add: init_score_fl_plus split: sum.splits)

lemma options_fl_plus: "options_fl (+) prev tp j e states = options prev tp j e states"
  by (induction states) (simp_all split: option.splits)

lemma rec_cell_fl_plus: "rec_cell_fl (+) prev tp ep states w j = rec_cell prev tp ep states w j"
  by (simp add: rec_cell_fl_def rec_cell_def options_fl_plus split: option.splits)

lemma recursion_row_fl_plus:
  "recursion_row_fl (+) prev tp ep states w js (v, b) = recursion_row prev tp ep states w js (v, b)"
  by (induction js arbitrary: v b)
     (simp_all add: rec_cell_fl_plus split: sum.splits option.splits)

lemma recursion_fl_plus: "recursion_fl (+) prev tp ep states ws = recursion prev tp ep states ws"
  by (induction ws arbitrary: prev) (simp_all add: recursion_row_fl_plus split: sum.splits)

lemma viterbi_chart_fl_plus:
  "viterbi_chart_fl (+) obs states ip tp ep = viterbi_chart obs states ip tp ep"
  by (simp add: viterbi_chart_fl_def viterbi_chart_def initialization_fl_plus recursion_fl_plus
        split: sum.splits list.splits)

lemma path_score_fl_plus: "path_score_fl (+) prev tp i j = path_score prev tp i j"
  by (simp add: path_score_fl_def path_score_def)

lemma options_fl_Inr:
  "options_fl fadd prev tp j e states = Inr os \<Longrightarrow>
     (\<forall>i\<in>set states. path_score_fl fadd prev tp i j \<noteq> None) \<and>
     os = map (\<lambda>i. (fadd (the (path_score_fl fadd prev tp i j)) e, i)) states"
proof (induction states arbitrary: os)
  case Nil
  then show ?case by simp
next
  case (Cons i rest)
  from Cons.prems obtain vi ti tij os' where
    "prev i = Some vi" "tp i = Some ti" "ti j = Some tij"
    and rest: "options_fl fadd prev tp j e rest = Inr os'" and os: "os = (fadd (fadd vi tij) e, i) # os'"
    by (auto split: option.splits sum.splits)
  then have "path_score_fl fadd prev tp i j = Some (fadd vi tij)"
    by (simp add: path_score_fl_def)
  with Cons.IH[OF rest] os show ?case by simp
qed

lemma recursion_row_fl_Inr:
  "recursion_row_fl fadd prev tp ep states w js (v, b) = Inr (v', b') \<Longrightarrow>
     (\<forall>j. j \<notin> set js \<longrightarrow> v' j = v j \<and> b' j = b j) \<and>
     (\<forall>j\<in>set js.
        (rec_cell_fl fadd prev tp ep states w j = Inr None \<and> v' j = Some NegInf \<and> b' j = b j) \<or>
        (\<exists>m. rec_cell_fl fadd prev tp ep states w j = Inr (Some m) \<and>
             v' j = Some (fst m) \<and> b' j = Some (Str (snd m))))"
proof (induction js arbitrary: v b)
  case Nil
  then show ?case by simp
next
  case (Cons j0 js)
  from Cons.prems obtain r where r: "rec_cell_fl fadd prev tp ep states w j0 = Inr r"
    by (auto split: sum.splits)
  show ?case
  proof (cases r)
    case None
    with r Cons.prems have "recursion_row_fl fadd prev tp ep states w js (v(j0 \<mapsto> NegInf), b) = Inr (v', b')"
      by simp
    from Cons.IH[OF this] have
      out: "\<And>j. j \<notin> set js \<Longrightarrow> v' j = (v(j0 \<mapsto> NegInf)) j \<and> b' j = b j"
      and inn: "\<And>j. j \<in> set js \<Longrightarrow>
        (rec_cell_fl fadd prev tp ep states w j = Inr None \<and> v' j = Some NegInf \<and> b' j = b j) \<or>
        (\<exists>m. rec_cell_fl fadd prev tp ep states w j = Inr (Some m) \<and>
             v' j = Some (fst m) \<and> b' j = Some (Str (snd m)))"
      by blast+
    show ?thesis
    proof (rule conjI; intro allI impI ballI)
      fix j assume "j \<notin> set (j0 # js)"
      then show "v' j = v j \<and> b' j = b j" using out[of j] by simp
    next
      fix j assume j: "j \<in> set (j0 # js)"
      show "(rec_cell_fl fadd prev tp ep states w j = Inr None \<and> v' j = Some NegInf \<and> b' j = b j) \<or>
        (\<exists>m. rec_cell_fl fadd prev tp ep states w j = Inr (Some m) \<and>
             v' j = Some (fst m) \<and> b' j = Some (Str (snd m)))"
      proof (cases "j \<in> set js")
        case True
        then show ?thesis by (rule inn)
      next
        case False
        with j have "j = j0" by simp
        with False out[of j0] r None show ?thesis by simp
      qed
    qed
  next
    case (Some m)
    with r Cons.prems have
      "recursion_row_fl fadd prev tp ep states w js (v(j0 \<mapsto> fst m), b(j0 \<mapsto> Str (snd m))) = Inr (v', b')"
      by simp
    from Cons.IH[OF this] have
      out: "\<And>j. j \<notin> set js \<Longrightarrow>
              v' j = (v(j0 \<mapsto> fst m)) j \<and> b' j = (b(j0 \<mapsto> Str (snd m))) j"
      and inn: "\<And>j. j \<in> set js \<Longrightarrow>
        (rec_cell_fl fadd prev tp ep states w j = Inr None \<and> v' j = Some NegInf \<and>
           b' j = (b(j0 \<mapsto> Str (snd m))) j) \<or>
        (\<exists>m. rec_cell_fl fadd prev tp ep states w j = Inr (Some m) \<and>
             v' j = Some (fst m) \<and> b' j = Some (Str (snd m)))"
      by blast+
    show ?thesis
    proof (rule conjI; intro allI impI ballI)
      fix j assume "j \<notin> set (j0 # js)"
      then show "v' j = v j \<and> b' j = b j" using out[of j] by simp
    next
      fix j assume j: "j \<in> set (j0 # js)"
      show "(rec_cell_fl fadd prev tp ep states w j = Inr None \<and> v' j = Some NegInf \<and> b' j = b j) \<or>
        (\<exists>m. rec_cell_fl fadd prev tp ep states w j = Inr (Some m) \<and>
             v' j = Some (fst m) \<and> b' j = Some (Str (snd m)))"
      proof (cases "j \<in> set js")
        case True
        from inn[OF True] show ?thesis
        proof
          assume a: "rec_cell_fl fadd prev tp ep states w j = Inr None \<and> v' j = Some NegInf \<and>
             b' j = (b(j0 \<mapsto> Str (snd m))) j"
          with r Some have "j \<noteq> j0" by auto
          with a show ?thesis by simp
        next
          assume "\<exists>m. rec_cell_fl fadd prev tp ep states w j = Inr (Some m) \<and>
             v' j = Some (fst m) \<and> b' j = Some (Str (snd m))"
          then show ?thesis by blast
        qed
      next
        case False
        with j have "j = j0" by simp
        with False out[of j0] r Some show ?thesis by simp
      qed
    qed
  qed
qed

lemma recursion_fl_Inr:
  "recursion_fl fadd prev tp ep states ws = Inr rows \<Longrightarrow>
     length rows = length ws \<and>
     (\<forall>k<length ws.
        recursion_row_fl fadd (if k = 0 then prev else fst (rows ! (k - 1))) tp ep states (ws ! k) states
          (Map.empty, empty_dic states) = Inr (rows ! k))"
proof (induction ws arbitrary: prev rows)
  case Nil
  then show ?case by simp
next
  case (Cons w ws)
  from Cons.prems obtain v b rest where
    row: "recursion_row_fl fadd prev tp ep states w states (Map.empty, empty_dic states) = Inr (v, b)"
    and rest: "recursion_fl fadd v tp ep states ws = Inr rest" and rows: "rows = (v, b) # rest"
    by (auto split: sum.splits)
  from Cons.IH[OF rest] have len: "length rest = length ws"
    and step: "\<And>k. k < length ws \<Longrightarrow>
        recursion_row_fl fadd (if k = 0 then v else fst (rest ! (k - 1))) tp ep states (ws ! k) states
          (Map.empty, empty_dic states) = Inr (rest ! k)"
    by auto
  show ?case
  proof (intro conjI allI impI)
    show "length rows = length (w # ws)" using len rows by simp
  next
    fix k assume k: "k < length (w # ws)"
    show "recursion_row_fl fadd (if k = 0 then prev else fst (rows ! (k - 1))) tp ep states ((w # ws) ! k) states
          (Map.empty, empty_dic states) = Inr (rows ! k)"
    proof (cases k)
      case 0
      then show ?thesis using row rows by simp
    next
      case (Suc n)
      with k have n: "n < length ws" by simp
      from step[OF n] show ?thesis using Suc rows by (cases n) simp_all
    qed
  qed
qed

lemma viterbi_chart_fl_Inr:
  assumes "viterbi_chart_fl fadd obs states ip tp ep = Inr chart"
  shows "length chart = length obs"
    and "obs \<noteq> [] \<Longrightarrow> initialization_fl fadd obs ip ep states (Map.empty, empty_dic states) = Inr (chart ! 0)"
    and "0 < t \<Longrightarrow> t < length obs \<Longrightarrow>
          recursion_row_fl fadd (fst (chart ! (t - 1))) tp ep states (obs ! t) states
            (Map.empty, empty_dic states) = Inr (chart ! t)"
proof -
  show "length chart = length obs"
  proof (cases obs)
    case Nil
    with assms show ?thesis by (auto simp: viterbi_chart_fl_def split: sum.splits)
  next
    case (Cons w ws)
    with assms obtain v0 b0 rows where rows: "recursion_fl fadd v0 tp ep states ws = Inr rows"
      and chart: "chart = (v0, b0) # rows"
      by (auto simp: viterbi_chart_fl_def split: sum.splits)
    from recursion_fl_Inr[OF rows] chart Cons show ?thesis by simp
  qed
  show "initialization_fl fadd obs ip ep states (Map.empty, empty_dic states) = Inr (chart ! 0)" if "obs \<noteq> []"
    using assms that by (auto simp: viterbi_chart_fl_def split: sum.splits list.splits)
  show "recursion_row_fl fadd (fst (chart ! (t - 1))) tp ep states (obs ! t) states
            (Map.empty, empty_dic states) = Inr (chart ! t)" if t: "0 < t" "t < length obs"
  proof -
    from assms t obtain v0 b0 w ws rows where
      obs: "obs = w # ws" and rows: "recursion_fl fadd v0 tp ep states ws = Inr rows"
      and chart: "chart = (v0, b0) # rows"
      by (auto simp: viterbi_chart_fl_def split: sum.splits list.splits)
    from t obs obtain k where k: "t = Suc k" "k < length ws" by (cases t) auto
    from recursion_fl_Inr[OF rows] k have
      "recursion_row_fl fadd (if k = 0 then v0 else fst (rows ! (k - 1))) tp ep states (ws ! k) states
          (Map.empty, empty_dic states) = Inr (rows ! k)" by blast
    then show ?thesis using k obs chart by (cases k) simp_all
  qed
qed

lemma rec_cell_fl_Some:
  assumes "rec_cell_fl fadd prev tp ep states w j = Inr (Some m)"
  shows "states \<noteq> []" and "\<forall>i\<in>set states. path_score_fl fadd prev tp i j \<noteq> None"
    and "\<exists>ej e. ep j = Some ej \<and> ej w = Some e \<and>
           m = Max ((\<lambda>i. (fadd (the (path_score_fl fadd prev tp i j)) e, i)) ` set states)"
    and "snd m \<in> set states"
proof -
  from assms obtain ej e os where ej: "ep j = Some ej" "ej w = Some e"
    and os: "options_fl fadd prev tp j e states = Inr os" and m: "py_max os = Inr m"
    by (auto simp: rec_cell_fl_def split: option.splits sum.splits)
  from m have ne: "os \<noteq> []" by (cases os) auto
  from options_fl_Inr[OF os] have def: "\<forall>i\<in>set states. path_score_fl fadd prev tp i j \<noteq> None"
    and os_eq: "os = map (\<lambda>i. (fadd (the (path_score_fl fadd prev tp i j)) e, i)) states" by blast+
  from ne os_eq show st: "states \<noteq> []" by auto
  from def show "\<forall>i\<in>set states. path_score_fl fadd prev tp i j \<noteq> None" .
  from py_max_eq[OF ne] m have mm: "m = Max (set os)" by simp
  with os_eq have m_eq: "m = Max ((\<lambda>i. (fadd (the (path_score_fl fadd prev tp i j)) e, i)) ` set states)"
    by simp
  with ej show "\<exists>ej e. ep j = Some ej \<and> ej w = Some e \<and>
           m = Max ((\<lambda>i. (fadd (the (path_score_fl fadd prev tp i j)) e, i)) ` set states)" by blast
  have "Max (set os) \<in> set os" using ne by (intro Max_in) auto
  with mm os_eq show "snd m \<in> set states" by auto
qed

lemma rec_cell_fl_None:
  "rec_cell_fl fadd prev tp ep states w j = Inr None \<Longrightarrow> \<exists>ej. ep j = Some ej \<and> ej w = None"
  by (auto simp: rec_cell_fl_def split: option.splits sum.splits)

section \<open>Rounding to the nearest double\<close>

lemma rne_cases: "rne r = \<lfloor>r\<rfloor> \<or> rne r = \<lfloor>r\<rfloor> + 1"
  by (simp add: rne_def Let_def)

lemma rne_of_int [simp]: "rne (of_int k) = k"
  by (simp add: rne_def)

lemma rne_mono: "r \<le> s \<Longrightarrow> rne r \<le> rne s"
proof -
  assume rs: "r \<le> s"
  then have fl: "\<lfloor>r\<rfloor> \<le> \<lfloor>s\<rfloor>" by (rule floor_mono)
  show ?thesis
  proof (cases "\<lfloor>r\<rfloor> = \<lfloor>s\<rfloor>")
    case True
    with rs show ?thesis by (auto simp: rne_def Let_def)
  next
    case False
    with fl have "\<lfloor>r\<rfloor> + 1 \<le> \<lfloor>s\<rfloor>" by simp
    moreover have "rne r \<le> \<lfloor>r\<rfloor> + 1" using rne_cases[of r] by auto
    moreover have "\<lfloor>s\<rfloor> \<le> rne s" using rne_cases[of s] by auto
    ultimately show ?thesis by simp
  qed
qed

lemma rne_minus: "rne (- r) = - rne r"
proof (cases "r \<in> \<int>")
  case True
  then obtain k where "r = of_int k" by (auto elim: Ints_cases)
  then have "- r = of_int (- k)" by simp
  then have "rne (- r) = - k" by (simp only: rne_of_int)
  with \<open>r = of_int k\<close> show ?thesis by simp
next
  case False
  then have ne: "of_int \<lfloor>r\<rfloor> \<noteq> r" by (metis Ints_of_int)
  then have lt: "of_int \<lfloor>r\<rfloor> < r" unfolding less_le using of_int_floor_le[of r] by blast
  have up: "r < of_int \<lfloor>r\<rfloor> + 1" by linarith
  have fl: "\<lfloor>- r\<rfloor> = - \<lfloor>r\<rfloor> - 1"
  proof (rule floor_unique)
    show "of_int (- \<lfloor>r\<rfloor> - 1) \<le> - r" by simp linarith
    show "- r < of_int (- \<lfloor>r\<rfloor> - 1) + 1" using lt by simp
  qed
  from ne have "r - of_int \<lfloor>r\<rfloor> \<noteq> 0" by simp
  then show ?thesis
    unfolding rne_def Let_def fl by (auto simp: field_simps)
qed

lemma expo_eq:
  assumes "2 powr of_int k \<le> \<bar>x\<bar>" "\<bar>x\<bar> < 2 powr (of_int k + 1)" "- 1022 \<le> k"
  shows "expo x = k"
proof -
  have pos: "0 < \<bar>x\<bar>" using assms(1) by (smt (verit) powr_gt_zero)
  have "of_int k \<le> log 2 \<bar>x\<bar>" using assms(1) pos by (simp add: le_log_iff)
  moreover have "log 2 \<bar>x\<bar> < of_int k + 1" using assms(2) pos by (simp add: log_less_iff)
  ultimately have "\<lfloor>log 2 \<bar>x\<bar>\<rfloor> = k" by (intro floor_unique) auto
  with assms(3) show ?thesis by (simp add: expo_def)
qed

lemma expo_upper: "x \<noteq> 0 \<Longrightarrow> \<bar>x\<bar> < 2 powr (of_int (expo x) + 1)"
proof -
  assume "x \<noteq> 0"
  then have pos: "0 < \<bar>x\<bar>" by simp
  have "log 2 \<bar>x\<bar> < of_int \<lfloor>log 2 \<bar>x\<bar>\<rfloor> + 1" by linarith
  also have "\<dots> \<le> of_int (expo x) + 1" by (simp add: expo_def)
  finally show ?thesis using pos by (simp add: log_less_iff)
qed

lemma expo_lower: "x \<noteq> 0 \<Longrightarrow> - 1022 < expo x \<Longrightarrow> 2 powr of_int (expo x) \<le> \<bar>x\<bar>"
proof -
  assume "x \<noteq> 0" and "- 1022 < expo x"
  then have pos: "0 < \<bar>x\<bar>" and e: "expo x = \<lfloor>log 2 \<bar>x\<bar>\<rfloor>" by (auto simp: expo_def max_def split: if_splits)
  have "2 powr of_int \<lfloor>log 2 \<bar>x\<bar>\<rfloor> \<le> \<bar>x\<bar>"
    using pos le_log_iff[of 2 "\<bar>x\<bar>" "of_int \<lfloor>log 2 \<bar>x\<bar>\<rfloor>"] by simp
  with e show ?thesis by simp
qed

lemma expo_mono: "0 < x \<Longrightarrow> x \<le> y \<Longrightarrow> expo x \<le> expo y"
proof -
  assume "0 < x" "x \<le> y"
  then have "log 2 \<bar>x\<bar> \<le> log 2 \<bar>y\<bar>" by simp
  then have "\<lfloor>log 2 \<bar>x\<bar>\<rfloor> \<le> \<lfloor>log 2 \<bar>y\<bar>\<rfloor>" by (rule floor_mono)
  then show ?thesis by (simp add: expo_def)
qed

lemma expo_minus [simp]: "expo (- x) = expo x"
  by (simp add: expo_def)

lemma ulp_minus [simp]: "ulp (- x) = ulp x"
  by (simp add: ulp_def)

lemma ulp_pos [simp]: "0 < ulp x"
  by (simp add: ulp_def)

lemma ulp_nonneg [simp]: "0 \<le> ulp x"
  by (simp add: ulp_def)

lemma round_real_minus: "round_real (- x) = - round_real x"
  by (simp add: round_real_def rne_minus)

lemma round_real_nonneg: "0 \<le> x \<Longrightarrow> 0 \<le> round_real x"
proof -
  assume "0 \<le> x"
  then have "0 \<le> x / ulp x" by (rule divide_nonneg_pos) (rule ulp_pos)
  then have "rne 0 \<le> rne (x / ulp x)" by (rule rne_mono)
  then have "0 \<le> rne (x / ulp x)" using rne_of_int[of 0] by simp
  then show ?thesis by (simp add: round_real_def)
qed

lemma round_real_mono_pos:
  assumes "0 < x" "x \<le> y"
  shows "round_real x \<le> round_real y"
proof (cases "expo x = expo y")
  case True
  then have u: "ulp x = ulp y" by (simp add: ulp_def)
  from assms(2) have "x / ulp y \<le> y / ulp y" by (simp add: divide_right_mono)
  then have "rne (x / ulp y) \<le> rne (y / ulp y)" by (rule rne_mono)
  then have "of_int (rne (x / ulp y)) * ulp y \<le> of_int (rne (y / ulp y)) * ulp y"
    by (simp add: mult_right_mono)
  with assms u show ?thesis by (simp add: round_real_def)
next
  case False
  with expo_mono[OF assms] have lt: "expo x < expo y" by simp
  from assms have x0: "x \<noteq> 0" and y0: "y \<noteq> 0" by simp_all
  have "- 1022 \<le> expo x" by (simp add: expo_def)
  with lt have "- 1022 < expo y" by simp
  from expo_lower[OF y0 this] assms have ylow: "2 powr of_int (expo y) \<le> y" by simp
  have "y / ulp y \<ge> 2 powr of_int (expo y) / ulp y" using ylow by (simp add: divide_right_mono)
  moreover have "2 powr of_int (expo y) / ulp y = 2 powr 52"
    by (simp add: ulp_def powr_diff [symmetric])
  ultimately have "of_int (2 ^ 52) \<le> y / ulp y" by simp
  then have "rne (of_int (2 ^ 52)) \<le> rne (y / ulp y)" by (rule rne_mono)
  then have "2 ^ 52 \<le> rne (y / ulp y)" by (simp only: rne_of_int)
  then have "real_of_int (2 ^ 52) \<le> of_int (rne (y / ulp y))" by (simp only: of_int_le_iff)
  then have a: "real_of_int (2 ^ 52) * ulp y \<le> of_int (rne (y / ulp y)) * ulp y"
    by (rule mult_right_mono) (rule ulp_nonneg)
  have b: "real_of_int (2 ^ 52) * ulp y = 2 powr of_int (expo y)"
    by (simp add: ulp_def powr_diff)
  have "round_real y = of_int (rne (y / ulp y)) * ulp y" using y0 by (simp add: round_real_def)
  with a b have ry: "2 powr of_int (expo y) \<le> round_real y" by (simp only:)
  from expo_upper[OF x0] assms have xup: "x < 2 powr (of_int (expo x) + 1)" by simp
  have "x / ulp x \<le> 2 powr (of_int (expo x) + 1) / ulp x" using xup by (simp add: divide_right_mono)
  moreover have "2 powr (of_int (expo x) + 1) / ulp x = 2 powr 53"
    by (simp add: ulp_def powr_diff [symmetric])
  ultimately have "x / ulp x \<le> of_int (2 ^ 53)" by simp
  then have "rne (x / ulp x) \<le> rne (of_int (2 ^ 53))" by (rule rne_mono)
  then have "rne (x / ulp x) \<le> 2 ^ 53" by (simp only: rne_of_int)
  then have "real_of_int (rne (x / ulp x)) \<le> of_int (2 ^ 53)" by (simp only: of_int_le_iff)
  then have c: "of_int (rne (x / ulp x)) * ulp x \<le> real_of_int (2 ^ 53) * ulp x"
    by (rule mult_right_mono) (rule ulp_nonneg)
  have d: "real_of_int (2 ^ 53) * ulp x = 2 powr (of_int (expo x) + 1)"
    by (simp add: ulp_def powr_diff powr_add)
  have "round_real x = of_int (rne (x / ulp x)) * ulp x" using x0 by (simp add: round_real_def)
  with c d have rx: "round_real x \<le> 2 powr (of_int (expo x) + 1)" by (simp only:)
  from lt have "of_int (expo x) + 1 \<le> (of_int (expo y) :: real)" by linarith
  then have "(2::real) powr (of_int (expo x) + 1) \<le> 2 powr of_int (expo y)" by simp
  with rx ry show ?thesis by linarith
qed

lemma round_real_mono: "x \<le> y \<Longrightarrow> round_real x \<le> round_real y"
proof -
  assume xy: "x \<le> y"
  consider "0 < x" | "y < 0" | "x \<le> 0" "0 \<le> y" by linarith
  then show ?thesis
  proof cases
    case 1
    from this xy show ?thesis by (rule round_real_mono_pos)
  next
    case 2
    with xy have "0 < - y" "- y \<le> - x" by simp_all
    then have "round_real (- y) \<le> round_real (- x)" by (rule round_real_mono_pos)
    then show ?thesis by (simp add: round_real_minus)
  next
    case 3
    from 3(1) have "0 \<le> round_real (- x)" by (intro round_real_nonneg) simp
    then have "round_real x \<le> 0" by (simp add: round_real_minus)
    moreover from 3(2) have "0 \<le> round_real y" by (rule round_real_nonneg)
    ultimately show ?thesis by simp
  qed
qed

lemma round_double_mono: "x \<le> y \<Longrightarrow> round_double x \<le> round_double y"
  using round_real_mono[of x y] by (auto simp: round_double_def Let_def)

lemma float_add_mono: "a \<le> b \<Longrightarrow> float_add a e \<le> float_add b e"
  by (cases a; cases b; cases e) (simp_all add: float_add_def round_double_mono)

lemma rne_dist: "\<bar>real_of_int (rne r) - r\<bar> \<le> 1 / 2"
proof -
  have "of_int \<lfloor>r\<rfloor> \<le> r" "r < of_int \<lfloor>r\<rfloor> + 1" by linarith+
  then show ?thesis by (auto simp: rne_def Let_def)
qed

lemma round_double_eval:
  assumes k: "2 powr of_int k \<le> \<bar>x\<bar>" "\<bar>x\<bar> < 2 powr (of_int k + 1)" "- 1022 \<le> k" "k \<le> 1022"
    and n: "rne (x / 2 powr (of_int k - 52)) = n"
  shows "round_double x = Fin (of_int n * 2 powr (of_int k - 52))"
proof -
  have e: "expo x = k" using k(1,2,3) by (rule expo_eq)
  have x0: "x \<noteq> 0" using k(1) by (smt (verit) powr_gt_zero)
  have "rne (x / ulp x) = n" using n e by (simp add: ulp_def)
  with x0 e have r: "round_real x = of_int n * 2 powr (of_int k - 52)"
    by (simp add: round_real_def ulp_def)
  define P :: int where "P = 2 ^ 53"
  have P: "real_of_int P = 2 powr 53" by (simp add: P_def)
  have "(2::real) powr 53 * 2 powr (of_int k - 52) = 2 powr (53 + (of_int k - 52))"
    by (rule powr_add [symmetric])
  also have "53 + (real_of_int k - 52) = of_int k + 1" by simp
  finally have u: "2 powr (of_int k + 1) = real_of_int P * 2 powr (of_int k - 52)"
    unfolding P by (rule sym)
  have upos: "0 < 2 powr (real_of_int k - 52)" by simp
  have "\<bar>x\<bar> / 2 powr (of_int k - 52) < real_of_int P * 2 powr (of_int k - 52) / 2 powr (of_int k - 52)"
    using k(2) upos unfolding u by (rule divide_strict_right_mono)
  then have "\<bar>x / 2 powr (of_int k - 52)\<bar> < real_of_int P" by simp
  with rne_dist[of "x / 2 powr (of_int k - 52)"] n
  have "\<bar>real_of_int n\<bar> < real_of_int P + 1" by linarith
  then have "real_of_int \<bar>n\<bar> < real_of_int (P + 1)" by simp
  then have "\<bar>n\<bar> < P + 1" by (simp only: of_int_less_iff)
  then have "\<bar>n\<bar> \<le> P" by simp
  then have "real_of_int \<bar>n\<bar> \<le> real_of_int P" by (simp only: of_int_le_iff)
  then have "real_of_int \<bar>n\<bar> * 2 powr (of_int k - 52) \<le> real_of_int P * 2 powr (of_int k - 52)"
    by (rule mult_right_mono) simp
  then have "\<bar>real_of_int n * 2 powr (of_int k - 52)\<bar> \<le> 2 powr (real_of_int k + 1)"
    unfolding u by (simp add: abs_mult)
  also have "\<dots> \<le> 2 powr 1023"
  proof (rule powr_mono)
    show "real_of_int k + 1 \<le> 1023" using k(4) by simp
    show "(1::real) \<le> 2" by simp
  qed
  also have "\<dots> < 2 powr 1024" by (rule powr_less_mono) simp_all
  finally have "\<bar>round_real x\<bar> < 2 powr 1024" unfolding r .
  moreover have "(2::real) powr 1024 = 2 ^ 1024" by (rule powr_numeral) simp
  ultimately have "\<bar>round_real x\<bar> < 2 ^ 1024" by (simp only:)
  then have "\<not> round_real x \<le> - (2 ^ 1024)" by (simp only: abs_less_iff not_le) simp
  with r show ?thesis by (simp only: round_double_def Let_def if_False)
qed

lemma collision_sums:
  "float_add (Fin (0)) (Fin (- 1)) = Fin (- 1)"
  "float_add (Fin (- 1)) (Fin (- 2)) = Fin (- 3)"
  "float_add (Fin (- 3)) (Fin (6004799503160661 / 18014398509481984)) = Fin (- (6004799503160661 / 2251799813685248))"
  "float_add (Fin (- 1)) (Fin (- 1)) = Fin (- 2)"
  "float_add (Fin (- 2)) (Fin (6004799503160661 / 36028797018963968)) = Fin (- (8256599316845909 / 4503599627370496))"
  "float_add (Fin (- (8256599316845909 / 4503599627370496))) (Fin (- 2)) = Fin (- (4315949642896725 / 1125899906842624))"
  "float_add (Fin (- (4315949642896725 / 1125899906842624))) (Fin (6004799503160661 / 18014398509481984)) = Fin (- (7881299347898367 / 2251799813685248))"
  "float_add (Fin (- (6004799503160661 / 2251799813685248))) (Fin (0)) = Fin (- (6004799503160661 / 2251799813685248))"
  "float_add (Fin (- (6004799503160661 / 2251799813685248))) (Fin (6004799503160661 / 36028797018963968)) = Fin (- (5 / 2))"
  "float_add (Fin (- (8256599316845909 / 4503599627370496))) (Fin (- 1)) = Fin (- (3190049736054101 / 1125899906842624))"
  "float_add (Fin (- (3190049736054101 / 1125899906842624))) (Fin (6004799503160661 / 36028797018963968)) = Fin (- (6004799503160661 / 2251799813685248))"
  "float_add (Fin (- (7881299347898367 / 2251799813685248))) (Fin (0)) = Fin (- (7881299347898367 / 2251799813685248))"
  "float_add (Fin (- (7881299347898367 / 2251799813685248))) (Fin (- 1)) = Fin (- (9 / 2))"
  "float_add (Fin (- (5 / 2))) (Fin (- 1)) = Fin (- (7 / 2))"
  "float_add (Fin (- (7 / 2))) (Fin (- 1)) = Fin (- (9 / 2))"
proof -
  show "float_add (Fin (0)) (Fin (- 1)) = Fin (- 1)"
    using round_double_eval[of "0" "0 + - 1" "- 4503599627370496"]
    by (simp add: float_add_def powr_neg_numeral rne_def)
  show "float_add (Fin (- 1)) (Fin (- 2)) = Fin (- 3)"
    using round_double_eval[of "1" "- 1 + - 2" "- 6755399441055744"]
    by (simp add: float_add_def powr_neg_numeral rne_def)
  show "float_add (Fin (- 3)) (Fin (6004799503160661 / 18014398509481984)) = Fin (- (6004799503160661 / 2251799813685248))"
    using round_double_eval[of "1" "- 3 + 6004799503160661 / 18014398509481984" "- 6004799503160661"]
    by (simp add: float_add_def powr_neg_numeral rne_def)
  show "float_add (Fin (- 1)) (Fin (- 1)) = Fin (- 2)"
    using round_double_eval[of "1" "- 1 + - 1" "- 4503599627370496"]
    by (simp add: float_add_def powr_neg_numeral rne_def)
  show "float_add (Fin (- 2)) (Fin (6004799503160661 / 36028797018963968)) = Fin (- (8256599316845909 / 4503599627370496))"
    using round_double_eval[of "0" "- 2 + 6004799503160661 / 36028797018963968" "- 8256599316845909"]
    by (simp add: float_add_def powr_neg_numeral rne_def)
  show "float_add (Fin (- (8256599316845909 / 4503599627370496))) (Fin (- 2)) = Fin (- (4315949642896725 / 1125899906842624))"
    using round_double_eval[of "1" "- (8256599316845909 / 4503599627370496) + - 2" "- 8631899285793450"]
    by (simp add: float_add_def powr_neg_numeral rne_def)
  show "float_add (Fin (- (4315949642896725 / 1125899906842624))) (Fin (6004799503160661 / 18014398509481984)) = Fin (- (7881299347898367 / 2251799813685248))"
    using round_double_eval[of "1" "- (4315949642896725 / 1125899906842624) + 6004799503160661 / 18014398509481984" "- 7881299347898367"]
    by (simp add: float_add_def powr_neg_numeral rne_def)
  show "float_add (Fin (- (6004799503160661 / 2251799813685248))) (Fin (0)) = Fin (- (6004799503160661 / 2251799813685248))"
    using round_double_eval[of "1" "- (6004799503160661 / 2251799813685248) + 0" "- 6004799503160661"]
    by (simp add: float_add_def powr_neg_numeral rne_def)
  show "float_add (Fin (- (6004799503160661 / 2251799813685248))) (Fin (6004799503160661 / 36028797018963968)) = Fin (- (5 / 2))"
    using round_double_eval[of "1" "- (6004799503160661 / 2251799813685248) + 6004799503160661 / 36028797018963968" "- 5629499534213120"]
    by (simp add: float_add_def powr_neg_numeral rne_def)
  show "float_add (Fin (- (8256599316845909 / 4503599627370496))) (Fin (- 1)) = Fin (- (3190049736054101 / 1125899906842624))"
    using round_double_eval[of "1" "- (8256599316845909 / 4503599627370496) + - 1" "- 6380099472108202"]
    by (simp add: float_add_def powr_neg_numeral rne_def)
  show "float_add (Fin (- (3190049736054101 / 1125899906842624))) (Fin (6004799503160661 / 36028797018963968)) = Fin (- (6004799503160661 / 2251799813685248))"
    using round_double_eval[of "1" "- (3190049736054101 / 1125899906842624) + 6004799503160661 / 36028797018963968" "- 6004799503160661"]
    by (simp add: float_add_def powr_neg_numeral rne_def)
  show "float_add (Fin (- (7881299347898367 / 2251799813685248))) (Fin (0)) = Fin (- (7881299347898367 / 2251799813685248))"
    using round_double_eval[of "1" "- (7881299347898367 / 2251799813685248) + 0" "- 7881299347898367"]
    by (simp add: float_add_def powr_neg_numeral rne_def)
  show "float_add (Fin (- (7881299347898367 / 2251799813685248))) (Fin (- 1)) = Fin (- (9 / 2))"
    using round_double_eval[of "2" "- (7881299347898367 / 2251799813685248) + - 1" "- 5066549580791808"]
    by (simp add: float_add_def powr_neg_numeral rne_def)
  show "float_add (Fin (- (5 / 2))) (Fin (- 1)) = Fin (- (7 / 2))"
    using round_double_eval[of "1" "- (5 / 2) + - 1" "- 7881299347898368"]
    by (simp add: float_add_def powr_neg_numeral rne_def)
  show "float_add (Fin (- (7 / 2))) (Fin (- 1)) = Fin (- (9 / 2))"
    using round_double_eval[of "2" "- (7 / 2) + - 1" "- 5066549580791808"]
    by (simp add: float_add_def powr_neg_numeral rne_def)
qed

section \<open>The tables of a training file, in doubles\<close>

lemma log2_half_quarter: "log 2 (1 / 2) = - 1" "log 2 (1 / 4) = - 2"
proof -
  have "(1 / 2 :: real) = 2 powr (- 1)" by (simp add: powr_neg_numeral powr_minus)
  then show "log 2 (1 / 2) = - 1" by (simp only: log_powr_cancel)
  have "(1 / 4 :: real) = 2 powr (- 2)" by (simp add: powr_neg_numeral)
  then show "log 2 (1 / 4) = - 2" by (simp only: log_powr_cancel)
qed

lemma round_double_entries:
  "round_double 0 = Fin 0"
  "round_double (- 1) = Fin (- 1)"
  "round_double (- 2) = Fin (- 2)"
  "round_double (1 / 3) = Fin (6004799503160661 / 18014398509481984)"
  "round_double (1 / 6) = Fin (6004799503160661 / 36028797018963968)"
proof -
  show "round_double 0 = Fin 0" by (simp add: round_double_def round_real_def)
  show "round_double (- 1) = Fin (- 1)"
    using round_double_eval[of "0" "- 1" "- 4503599627370496"]
    by (simp add: powr_neg_numeral rne_def)
  show "round_double (- 2) = Fin (- 2)"
    using round_double_eval[of "1" "- 2" "- 4503599627370496"]
    by (simp add: powr_neg_numeral rne_def)
  show "round_double (1 / 3) = Fin (6004799503160661 / 18014398509481984)"
    using round_double_eval[of "- 2" "1 / 3" "6004799503160661"]
    by (simp add: powr_neg_numeral rne_def)
  show "round_double (1 / 6) = Fin (6004799503160661 / 36028797018963968)"
    using round_double_eval[of "- 3" "1 / 6" "6004799503160661"]
    by (simp add: powr_neg_numeral rne_def)
qed

text \<open>
  The real-valued training model returns these tables for the training file, up to the
  rounding of each entry to a double; the one entry left out is the logarithm of 2/3.
\<close>

lemma collision_tables_trained:
  "\<exists>ip tp ep sep.
     train [(''x'', ''B''), (''x'', ''A''), (''x'', ''B''), (''y'', ''B''), (''y'', ''B'')]
       [''B''] [''A'', ''B''] [''y'', ''u''] = Inr (ip, tp, ep, sep)
     \<and> (\<forall>j. map_option round_score (ip j) = collision_init j)
     \<and> (\<forall>i j. map_option round_score (entry tp i j) = entry collision_trans i j)
     \<and> (\<forall>j w. (j, w) \<noteq> (''A'', ''x'') \<longrightarrow>
           map_option round_score (entry sep j w) = entry collision_emis j w)"
proof -
  define M where
    "M = projr (train [(''x'', ''B''), (''x'', ''A''), (''x'', ''B''), (''y'', ''B''),
                       (''y'', ''B'')] [''B''] [''A'', ''B''] [''y'', ''u''])"
  have tr: "train [(''x'', ''B''), (''x'', ''A''), (''x'', ''B''), (''y'', ''B''), (''y'', ''B'')]
              [''B''] [''A'', ''B''] [''y'', ''u'']
            = Inr (fst M, fst (snd M), fst (snd (snd M)), snd (snd (snd M)))"
    unfolding M_def by (simp add: eval_defs)
  have i: "\<forall>j. map_option round_score (fst M j) = collision_init j"
    unfolding M_def
    by (simp add: eval_defs collision_init_def round_score_def round_double_entries)
  have t: "\<forall>i j. map_option round_score (entry (fst (snd M)) i j) = entry collision_trans i j"
    unfolding M_def
    by (simp add: eval_defs collision_trans_def round_score_def round_double_entries
          log2_half_quarter)
  have e: "\<forall>j w. (j, w) \<noteq> (''A'', ''x'') \<longrightarrow>
           map_option round_score (entry (snd (snd (snd M))) j w) = entry collision_emis j w"
    unfolding M_def
    by (simp add: eval_defs collision_emis_def round_score_def round_double_entries
          log2_half_quarter)
  show ?thesis
    apply (rule exI[of _ "fst M"])
    apply (rule exI[of _ "fst (snd M)"])
    apply (rule exI[of _ "fst (snd (snd M))"])
    apply (rule exI[of _ "snd (snd (snd M))"])
    apply (insert tr i t e)
    apply (intro conjI)
    apply assumption+
    done
qed

section \<open>The maximum of the computed scores\<close>

lemma float_add_NegInf [simp]: "float_add NegInf b = NegInf" "float_add a NegInf = NegInf"
  by (cases a; simp add: float_add_def)+

lemma Max_pairs_mono:
  fixes f :: "tag \<Rightarrow> score" and g :: "score \<Rightarrow> score"
  assumes g: "\<And>a b. a \<le> b \<Longrightarrow> g a \<le> g b"
    and ne: "states \<noteq> []"
    and m: "m = Max ((\<lambda>i. (g (f i), i)) ` set states)"
  shows "snd m \<in> set states"
    and "fst m = g (Max (f ` set states))"
    and "g (f (snd m)) = fst m"
    and "\<forall>i'\<in>set states. g (f i') = fst m \<longrightarrow> i' \<le> snd m"
proof -
  let ?A = "(\<lambda>i. (g (f i), i)) ` set states"
  have fin: "finite ?A" and neA: "?A \<noteq> {}" using ne by auto
  have finF: "finite (f ` set states)" and neF: "f ` set states \<noteq> {}" using ne by auto
  have "Max ?A \<in> ?A" using fin neA by (rule Max_in)
  with m obtain im where im: "im \<in> set states" "m = (g (f im), im)" by auto
  have "fst (Max ?A) = Max (fst ` ?A)"
    by (rule mono_Max_commute[OF mono_fst_lex fin neA])
  moreover have "fst ` ?A = g ` (f ` set states)" by (auto simp: image_iff)
  moreover have "Max (g ` (f ` set states)) = g (Max (f ` set states))"
    by (rule mono_Max_commute[OF monoI[of g, OF g] finF neF, symmetric])
  ultimately have fm: "fst m = g (Max (f ` set states))" using m by simp
  show "snd m \<in> set states" using im by simp
  show "fst m = g (Max (f ` set states))" by (rule fm)
  show "g (f (snd m)) = fst m" using im by simp
  show "\<forall>i'\<in>set states. g (f i') = fst m \<longrightarrow> i' \<le> snd m"
  proof (intro ballI impI)
    fix i' assume i': "i' \<in> set states" and eq: "g (f i') = fst m"
    have "(g (f i'), i') \<le> Max ?A" using i' by (intro Max_ge) auto
    with m have "(g (f i'), i') \<le> (fst m, snd m)" by simp
    with eq show "i' \<le> snd m" by (simp add: less_eq_prod_def)
  qed
qed

lemmas collision_defs = viterbi_chart_fl_def init_score_fl_def rec_cell_fl_def path_score_fl_def
  collision_init_def collision_trans_def collision_emis_def empty_dic_def entry_def
  zero_cell_def

section \<open>The recursion step of the decoder\<close>

text \<open>
  C1 (as amended). The decoder runs on any tables, and \<open>fadd\<close>, the addition of two floats,
  is monotone in its first argument, as the rounded addition of doubles is
  (\<open>float_add_mono\<close>). At a step \<open>t\<close> from 1 on and a tag \<open>j\<close> under which the token of step
  \<open>t\<close> has an emission entry \<open>e\<close>, every predecessor \<open>i'\<close> has a computed score
  \<open>f i' = viterbi[t-1][i'] + trans_prob[i'][j]\<close>, and the chart holds
  \<open>viterbi[t][j] = (max over i' of f i') + e\<close>. \<open>backpointer[t][j]\<close> is a tag \<open>i\<close> whose
  score with the emission added, \<open>f i + e\<close>, is that value; among the tags whose score with
  the emission added is that value, \<open>i\<close> is the greatest in the order of the strings, which
  is how \<open>max\<close> orders the pairs of a score and a tag. Nothing is said of \<open>f i\<close> itself.
\<close>

theorem viterbi_recursion_step:
  assumes mono: "\<forall>a b c. a \<le> b \<longrightarrow> fadd a c \<le> fadd b c"
    and chart: "viterbi_chart_fl fadd observations states init_prob trans_prob emis_prob
                  = Inr chart"
    and t: "1 \<le> t" "t < length observations"
    and j: "j \<in> set states"
    and e: "entry emis_prob j (observations ! t) = Some e"
  shows "\<exists>f i. (\<forall>i'\<in>set states.
                  path_score_fl fadd (fst (chart ! (t - 1))) trans_prob i' j = Some (f i'))
       \<and> fst (chart ! t) j = Some (fadd (Max (f ` set states)) e)
       \<and> snd (chart ! t) j = Some (Str i) \<and> i \<in> set states
       \<and> fadd (f i) e = fadd (Max (f ` set states)) e
       \<and> (\<forall>i'\<in>set states. fadd (f i') e = fadd (f i) e \<longrightarrow> i' \<le> i)"
proof -
  let ?prev = "fst (chart ! (t - 1))"
  let ?w = "observations ! t"
  let ?f = "\<lambda>i. the (path_score_fl fadd ?prev trans_prob i j)"
  let ?g = "\<lambda>s. fadd s e"
  from e obtain ej where ej: "emis_prob j = Some ej" "ej ?w = Some e"
    by (auto simp: entry_def split: option.splits)
  from t have t0: "0 < t" by simp
  from viterbi_chart_fl_Inr(3)[OF chart t0 t(2)] have row:
    "recursion_row_fl fadd ?prev trans_prob emis_prob states ?w states
       (Map.empty, empty_dic states) = Inr (fst (chart ! t), snd (chart ! t))" by simp
  from recursion_row_fl_Inr[OF row] j have
    "rec_cell_fl fadd ?prev trans_prob emis_prob states ?w j = Inr None \<or>
     (\<exists>m. rec_cell_fl fadd ?prev trans_prob emis_prob states ?w j = Inr (Some m) \<and>
          fst (chart ! t) j = Some (fst m) \<and> snd (chart ! t) j = Some (Str (snd m)))"
    by blast
  moreover have "rec_cell_fl fadd ?prev trans_prob emis_prob states ?w j \<noteq> Inr None"
  proof
    assume "rec_cell_fl fadd ?prev trans_prob emis_prob states ?w j = Inr None"
    from rec_cell_fl_None[OF this] ej show False by auto
  qed
  ultimately obtain m where
    m: "rec_cell_fl fadd ?prev trans_prob emis_prob states ?w j = Inr (Some m)"
    and vm: "fst (chart ! t) j = Some (fst m)" and bm: "snd (chart ! t) j = Some (Str (snd m))"
    by blast
  note ne = rec_cell_fl_Some(1)[OF m] and defined = rec_cell_fl_Some(2)[OF m]
  from rec_cell_fl_Some(3)[OF m] ej have
    m_eq: "m = Max ((\<lambda>i. (?g (?f i), i)) ` set states)" by auto
  have g: "\<And>a b. a \<le> b \<Longrightarrow> ?g a \<le> ?g b" using mono by blast
  note M = Max_pairs_mono[of ?g, OF g ne m_eq]
  have paths: "\<forall>i'\<in>set states. path_score_fl fadd ?prev trans_prob i' j = Some (?f i')"
    using defined by auto
  show ?thesis
  proof (intro exI conjI)
    show "\<forall>i'\<in>set states. path_score_fl fadd ?prev trans_prob i' j = Some (?f i')"
      by (rule paths)
    show "fst (chart ! t) j = Some (fadd (Max (?f ` set states)) e)"
      using vm M(2) by simp
    show "snd (chart ! t) j = Some (Str (snd m))" by (rule bm)
    show "snd m \<in> set states" by (rule M(1))
    show "fadd (?f (snd m)) e = fadd (Max (?f ` set states)) e"
      using M(2,3) by simp
    show "\<forall>i'\<in>set states. fadd (?f i') e = fadd (?f (snd m)) e \<longrightarrow> i' \<le> snd m"
      using M(3,4) by simp
  qed
qed

theorem viterbi_recursion_step_witness:
  "\<exists>chart e f i.
     (\<forall>a b c. a \<le> b \<longrightarrow> float_add a c \<le> float_add b c)
     \<and> viterbi_chart_fl float_add [''y'', ''u'', ''u'', ''y''] [''A'', ''B'']
           collision_init collision_trans collision_emis = Inr chart
     \<and> (1::nat) \<le> 3 \<and> 3 < length [''y'', ''u'', ''u'', ''y''] \<and> ''B'' \<in> set [''A'', ''B'']
     \<and> entry collision_emis ''B'' ([''y'', ''u'', ''u'', ''y''] ! 3) = Some e
     \<and> ((\<forall>i'\<in>set [''A'', ''B''].
            path_score_fl float_add (fst (chart ! (3 - 1))) collision_trans i' ''B''
              = Some (f i'))
       \<and> fst (chart ! 3) ''B'' = Some (float_add (Max (f ` set [''A'', ''B''])) e)
       \<and> snd (chart ! 3) ''B'' = Some (Str i) \<and> i \<in> set [''A'', ''B'']
       \<and> float_add (f i) e = float_add (Max (f ` set [''A'', ''B''])) e
       \<and> (\<forall>i'\<in>set [''A'', ''B'']. float_add (f i') e = float_add (f i) e \<longrightarrow> i' \<le> i))"
proof -
  define C where
    "C = projr (viterbi_chart_fl float_add [''y'', ''u'', ''u'', ''y''] [''A'', ''B'']
                  collision_init collision_trans collision_emis)"
  define E where "E = the (entry collision_emis ''B'' ([''y'', ''u'', ''u'', ''y''] ! 3))"
  have mono: "\<forall>a b c. a \<le> b \<longrightarrow> float_add a c \<le> float_add b c"
    by (simp add: float_add_mono)
  have ch: "viterbi_chart_fl float_add [''y'', ''u'', ''u'', ''y''] [''A'', ''B'']
              collision_init collision_trans collision_emis = Inr C"
    unfolding C_def by (simp add: collision_defs collision_sums)
  have h3: "(1::nat) \<le> 3" and h4: "3 < length [''y'', ''u'', ''u'', ''y'']"
    and h5: "''B'' \<in> set [''A'', ''B'']"
    by simp_all
  have en: "entry collision_emis ''B'' ([''y'', ''u'', ''u'', ''y''] ! 3) = Some E"
    unfolding E_def by (simp add: collision_defs)
  from viterbi_recursion_step[OF mono ch h3 h4 h5 en] obtain f i where
    c: "(\<forall>i'\<in>set [''A'', ''B''].
            path_score_fl float_add (fst (C ! (3 - 1))) collision_trans i' ''B''
              = Some (f i'))
       \<and> fst (C ! 3) ''B'' = Some (float_add (Max (f ` set [''A'', ''B''])) E)
       \<and> snd (C ! 3) ''B'' = Some (Str i) \<and> i \<in> set [''A'', ''B'']
       \<and> float_add (f i) E = float_add (Max (f ` set [''A'', ''B''])) E
       \<and> (\<forall>i'\<in>set [''A'', ''B'']. float_add (f i') E = float_add (f i) E \<longrightarrow> i' \<le> i)"
    by (elim exE) (rule that)
  show ?thesis
    apply (rule exI[of _ C])
    apply (rule exI[of _ E])
    apply (rule exI[of _ f])
    apply (rule exI[of _ i])
    apply (insert mono ch h3 h4 h5 en c)
    apply (elim conjE)
    apply (intro conjI)
    apply assumption+
    done
qed

text \<open>
  The claim as stated fails on the trained tables above and the test tokens \<open>y u u y\<close>. At
  step 3 and tag B the predecessor A has the greater computed
  \<open>viterbi[2][i] + trans_prob[i][B]\<close>, -3.4999999999999996 against -3.5, one unit in the
  last place apart; adding the emission entry -1.0 rounds both sums to -4.5, \<open>max\<close> then
  compares the tags, and the backpointer is B, which does not reach the maximum of
  \<open>viterbi[2][i] + trans_prob[i][B]\<close>.
\<close>

theorem recursion_backpointer_counterexample:
  "\<exists>chart.
     viterbi_chart_fl float_add [''y'', ''u'', ''u'', ''y''] [''A'', ''B'']
       collision_init collision_trans collision_emis = Inr chart
     \<and> entry collision_emis ''B'' ([''y'', ''u'', ''u'', ''y''] ! 3)
         = Some (Fin (- 1))
     \<and> path_score_fl float_add (fst (chart ! 2)) collision_trans ''A'' ''B''
         = Some (Fin (- (7881299347898367 / 2251799813685248)))
     \<and> path_score_fl float_add (fst (chart ! 2)) collision_trans ''B'' ''B''
         = Some (Fin (- (7881299347898368 / 2251799813685248)))
     \<and> fst (chart ! 3) ''B'' = Some (Fin (- (9 / 2)))
     \<and> snd (chart ! 3) ''B'' = Some (Str ''B'')
     \<and> \<not> (\<forall>i'\<in>set [''A'', ''B''].
            the (path_score_fl float_add (fst (chart ! 2)) collision_trans i' ''B'')
              \<le> the (path_score_fl float_add (fst (chart ! 2)) collision_trans ''B'' ''B''))"
proof -
  define C where
    "C = projr (viterbi_chart_fl float_add [''y'', ''u'', ''u'', ''y''] [''A'', ''B'']
                  collision_init collision_trans collision_emis)"
  have ch: "viterbi_chart_fl float_add [''y'', ''u'', ''u'', ''y''] [''A'', ''B'']
              collision_init collision_trans collision_emis = Inr C"
    unfolding C_def by (simp add: collision_defs collision_sums)
  have en: "entry collision_emis ''B'' ([''y'', ''u'', ''u'', ''y''] ! 3)
         = Some (Fin (- 1))"
    by (simp add: collision_defs)
  have pa: "path_score_fl float_add (fst (C ! 2)) collision_trans ''A'' ''B''
         = Some (Fin (- (7881299347898367 / 2251799813685248)))"
    unfolding C_def by (simp add: collision_defs collision_sums)
  have pb: "path_score_fl float_add (fst (C ! 2)) collision_trans ''B'' ''B''
         = Some (Fin (- (7881299347898368 / 2251799813685248)))"
    unfolding C_def by (simp add: collision_defs collision_sums)
  have v: "fst (C ! 3) ''B'' = Some (Fin (- (9 / 2)))"
    unfolding C_def by (simp add: collision_defs collision_sums)
  have b: "snd (C ! 3) ''B'' = Some (Str ''B'')"
    unfolding C_def by (simp add: collision_defs collision_sums)
  have n: "\<not> (\<forall>i'\<in>set [''A'', ''B''].
            the (path_score_fl float_add (fst (C ! 2)) collision_trans i' ''B'')
              \<le> the (path_score_fl float_add (fst (C ! 2)) collision_trans ''B'' ''B''))"
    using pa pb by simp
  show ?thesis
    apply (rule exI[of _ C])
    apply (insert ch en pa pb v b n)
    apply (intro conjI)
    apply assumption+
    done
qed

section \<open>Decoding without observations\<close>

text \<open>
  C9 (as amended). Decoding a zero-length observation sequence fails for every model, but
  not with a condition of its own and not before the dynamic programme: with at least one
  tag the first statement of the initialization loop, \<open>observations[0]\<close>, raises
  \<open>IndexError\<close>; with no tag the loops are skipped and the termination step's
  \<open>viterbi[T-1]\<close> raises \<open>KeyError\<close>.
\<close>

theorem viterbi_algorithm_no_observations:
  "viterbi_algorithm [] states init_prob trans_prob emis_prob =
     Inl (if states = [] then KeyError else IndexError)"
  by (cases states)
     (simp_all add: viterbi_algorithm_def viterbi_chart_def init_score_def termination_step_def)

theorem viterbi_algorithm_no_observations_witness:
  "viterbi_algorithm ([] :: string list) [''A''] Map.empty Map.empty Map.empty = Inl IndexError"
  using viterbi_algorithm_no_observations [of "[''A'']" Map.empty Map.empty Map.empty]
  by simp

text \<open>
  The claim as stated fails: the failure on the empty sequence is the \<open>IndexError\<close> of the
  initialization step, not \<open>EmptyInput\<close>.
\<close>

theorem empty_input_counterexample:
  "initialization ([] :: string list) [''A'' \<mapsto> Fin 0] [''A'' \<mapsto> [''x'' \<mapsto> Fin 0]] [''A'']
       (Map.empty, empty_dic [''A'']) = Inl IndexError
   \<and> viterbi_algorithm ([] :: string list) [''A''] [''A'' \<mapsto> Fin 0]
       [''A'' \<mapsto> [''A'' \<mapsto> Fin 0]] [''A'' \<mapsto> [''x'' \<mapsto> Fin 0]] \<noteq> Inl EmptyInput"
  by (simp add: viterbi_algorithm_def viterbi_chart_def init_score_def)

section \<open>A decode whose scores are all negative infinity\<close>

text \<open>
  C7. The training corpus is the one sentence \<open>y/B x/A\<close> and the test text is \<open>x x\<close>.
  Training succeeds, every score of the chart is negative infinity, and the final tag is
  \<open>B\<close>, the greater of the two tags. \<open>x\<close> has no emission entry under \<open>B\<close>, so the
  recursion step left \<open>backpointer[1][B]\<close> at the \<open>0\<close> it was created with; backtracking
  follows it and \<open>backpointer[0][0]\<close> raises \<open>KeyError\<close>: the decode aborts instead of
  returning a tag for each observation.
\<close>

theorem degenerate_decode_aborts:
  "(\<exists>init_prob trans_prob emis_prob smoothed_emis_prob chart.
      train [(''y'', ''B''), (''x'', ''A'')] [''B''] [''B'', ''A''] [''x'']
        = Inr (init_prob, trans_prob, emis_prob, smoothed_emis_prob)
      \<and> viterbi_chart [''x'', ''x''] [''B'', ''A''] init_prob trans_prob emis_prob = Inr chart
      \<and> fst (chart ! 0) ''A'' = Some NegInf \<and> fst (chart ! 0) ''B'' = Some NegInf
      \<and> fst (chart ! 1) ''A'' = Some NegInf \<and> fst (chart ! 1) ''B'' = Some NegInf
      \<and> snd (chart ! 1) ''B'' = Some Zero
      \<and> viterbi_algorithm [''x'', ''x''] [''B'', ''A''] init_prob trans_prob emis_prob
          = Inl KeyError)
   \<and> tag_unsmoothed [(''y'', ''B''), (''x'', ''A'')] [''B''] [''x'', ''x''] = Inl KeyError"
  by (simp add: tag_unsmoothed_def train_def find_init_prob_def find_trans_prob_def
      find_emis_prob_def laplace_emis_prob_def unknown_words_def empty_dic_def sum_values_def
      log_prob_def viterbi_algorithm_def viterbi_chart_def init_score_def rec_cell_def
      termination_step_def list_index_def backtracking.simps zero_cell_def)

section \<open>The returned tag sequence\<close>

text \<open>
  C8 (as amended). Let no tag be the string \<open>"origin"\<close>, which the backtracking loop takes
  for its sentinel. Whenever the decoder returns a tag sequence, the sequence has one tag
  for each observation, its last tag is the tag the termination step chose, each earlier
  tag is the backpointer of its successor (\<open>tags[t] = backpointer[t+1][tags[t+1]]\<close>), and
  the backpointer of the first tag is the sentinel written at \<open>t = 0\<close>: the sequence is the
  backpointer chain in forward order. The decoder does return when there is an observation
  and a tag, the tables have an entry for every tag, and every observation after the first
  has an emission entry under every tag.
\<close>

theorem viterbi_algorithm_length:
  assumes origin: "''origin'' \<notin> set states"
  shows "(viterbi_algorithm observations states init_prob trans_prob emis_prob = Inr tags \<longrightarrow>
            length tags = length observations \<and>
            (\<exists>chart maximum.
               viterbi_chart observations states init_prob trans_prob emis_prob = Inr chart \<and>
               termination_step chart states = Inr maximum \<and>
               tags ! (length observations - 1) = snd maximum \<and>
               (\<forall>t. Suc t < length observations \<longrightarrow>
                  snd (chart ! Suc t) (tags ! Suc t) = Some (Str (tags ! t))) \<and>
               snd (chart ! 0) (tags ! 0) = Some (Str ''origin'')))
       \<and> (observations \<noteq> [] \<and> states \<noteq> [] \<and>
          (\<forall>j\<in>set states. init_prob j \<noteq> None \<and> emis_prob j \<noteq> None \<and>
             (\<forall>i\<in>set states. \<exists>ti. trans_prob i = Some ti \<and> ti j \<noteq> None)) \<and>
          (\<forall>t j. 0 < t \<and> t < length observations \<and> j \<in> set states \<longrightarrow>
             (\<exists>ej. emis_prob j = Some ej \<and> ej (observations ! t) \<noteq> None)) \<longrightarrow>
          (\<exists>tags'. viterbi_algorithm observations states init_prob trans_prob emis_prob
                      = Inr tags'))"
proof (intro conjI impI)
  assume "viterbi_algorithm observations states init_prob trans_prob emis_prob = Inr tags"
  from viterbi_algorithm_Inr[OF origin this]
  show "length tags = length observations"
    and "\<exists>chart maximum.
               viterbi_chart observations states init_prob trans_prob emis_prob = Inr chart \<and>
               termination_step chart states = Inr maximum \<and>
               tags ! (length observations - 1) = snd maximum \<and>
               (\<forall>t. Suc t < length observations \<longrightarrow>
                  snd (chart ! Suc t) (tags ! Suc t) = Some (Str (tags ! t))) \<and>
               snd (chart ! 0) (tags ! 0) = Some (Str ''origin'')"
    by (rule conjunct1, rule conjunct2)
next
  assume a: "observations \<noteq> [] \<and> states \<noteq> [] \<and>
          (\<forall>j\<in>set states. init_prob j \<noteq> None \<and> emis_prob j \<noteq> None \<and>
             (\<forall>i\<in>set states. \<exists>ti. trans_prob i = Some ti \<and> ti j \<noteq> None)) \<and>
          (\<forall>t j. 0 < t \<and> t < length observations \<and> j \<in> set states \<longrightarrow>
             (\<exists>ej. emis_prob j = Some ej \<and> ej (observations ! t) \<noteq> None))"
  then have ne: "observations \<noteq> []" "states \<noteq> []"
    and keys: "\<forall>j\<in>set states. init_prob j \<noteq> None \<and> emis_prob j \<noteq> None \<and>
             (\<forall>i\<in>set states. \<exists>ti. trans_prob i = Some ti \<and> ti j \<noteq> None)"
    and cov: "\<forall>t j. 0 < t \<and> t < length observations \<and> j \<in> set states \<longrightarrow>
             (\<exists>ej. emis_prob j = Some ej \<and> ej (observations ! t) \<noteq> None)"
    by simp_all
  show "\<exists>tags'. viterbi_algorithm observations states init_prob trans_prob emis_prob = Inr tags'"
    by (rule viterbi_algorithm_total[OF origin ne keys cov])
qed

theorem viterbi_algorithm_length_witness:
  "''origin'' \<notin> set [''A'', ''B''] \<and>
   (\<exists>init_prob trans_prob emis_prob smoothed_emis_prob.
      train [(''x'', ''A''), (''y'', ''B'')] [''A''] [''A'', ''B''] [''x'', ''u'']
        = Inr (init_prob, trans_prob, emis_prob, smoothed_emis_prob) \<and>
      viterbi_algorithm [''x'', ''u''] [''A'', ''B''] init_prob trans_prob emis_prob
        = Inr [''A'', ''B''] \<and>
      ([''x'', ''u''] \<noteq> [] \<and> [''A'', ''B''] \<noteq> [] \<and>
          (\<forall>j\<in>set [''A'', ''B'']. init_prob j \<noteq> None \<and> emis_prob j \<noteq> None \<and>
             (\<forall>i\<in>set [''A'', ''B'']. \<exists>ti. trans_prob i = Some ti \<and> ti j \<noteq> None)) \<and>
          (\<forall>t j. 0 < t \<and> t < length [''x'', ''u''] \<and> j \<in> set [''A'', ''B''] \<longrightarrow>
             (\<exists>ej. emis_prob j = Some ej \<and> ej ([''x'', ''u''] ! t) \<noteq> None))) \<and>
      (length [''A'', ''B''] = length [''x'', ''u''] \<and>
            (\<exists>chart maximum.
               viterbi_chart [''x'', ''u''] [''A'', ''B''] init_prob trans_prob emis_prob
                 = Inr chart \<and>
               termination_step chart [''A'', ''B''] = Inr maximum \<and>
               [''A'', ''B''] ! (length [''x'', ''u''] - 1) = snd maximum \<and>
               (\<forall>t. Suc t < length [''x'', ''u''] \<longrightarrow>
                  snd (chart ! Suc t) ([''A'', ''B''] ! Suc t) = Some (Str ([''A'', ''B''] ! t))) \<and>
               snd (chart ! 0) ([''A'', ''B''] ! 0) = Some (Str ''origin''))) \<and>
      (\<exists>tags'. viterbi_algorithm [''x'', ''u''] [''A'', ''B''] init_prob trans_prob emis_prob
                  = Inr tags'))"
proof -
  define M where
    "M = projr (train [(''x'', ''A''), (''y'', ''B'')] [''A''] [''A'', ''B''] [''x'', ''u''])"
  have origin: "''origin'' \<notin> set [''A'', ''B'']" by simp
  have tr: "train [(''x'', ''A''), (''y'', ''B'')] [''A''] [''A'', ''B''] [''x'', ''u'']
            = Inr (fst M, fst (snd M), fst (snd (snd M)), snd (snd (snd M)))"
    unfolding M_def by (simp add: eval_defs)
  have run: "viterbi_algorithm [''x'', ''u''] [''A'', ''B''] (fst M) (fst (snd M))
               (fst (snd (snd M))) = Inr [''A'', ''B'']"
    unfolding M_def by (simp add: eval_defs)
  have keys: "\<forall>j\<in>set [''A'', ''B'']. fst M j \<noteq> None \<and> fst (snd (snd M)) j \<noteq> None \<and>
             (\<forall>i\<in>set [''A'', ''B'']. \<exists>ti. fst (snd M) i = Some ti \<and> ti j \<noteq> None)"
    unfolding M_def by (simp add: eval_defs)
  have cov: "\<forall>t j. 0 < t \<and> t < length [''x'', ''u''] \<and> j \<in> set [''A'', ''B''] \<longrightarrow>
             (\<exists>ej. fst (snd (snd M)) j = Some ej \<and> ej ([''x'', ''u''] ! t) \<noteq> None)"
  proof (intro allI impI)
    fix t :: nat and j :: tag
    assume a: "0 < t \<and> t < length [''x'', ''u''] \<and> j \<in> set [''A'', ''B'']"
    then have t: "t = 1" by simp
    from a have "j = ''A'' \<or> j = ''B''" by simp
    then show "\<exists>ej. fst (snd (snd M)) j = Some ej \<and> ej ([''x'', ''u''] ! t) \<noteq> None"
      unfolding M_def t by (auto simp: eval_defs)
  qed
  have hyp: "[''x'', ''u''] \<noteq> [] \<and> [''A'', ''B''] \<noteq> [] \<and>
          (\<forall>j\<in>set [''A'', ''B'']. fst M j \<noteq> None \<and> fst (snd (snd M)) j \<noteq> None \<and>
             (\<forall>i\<in>set [''A'', ''B'']. \<exists>ti. fst (snd M) i = Some ti \<and> ti j \<noteq> None)) \<and>
          (\<forall>t j. 0 < t \<and> t < length [''x'', ''u''] \<and> j \<in> set [''A'', ''B''] \<longrightarrow>
             (\<exists>ej. fst (snd (snd M)) j = Some ej \<and> ej ([''x'', ''u''] ! t) \<noteq> None))"
    using keys cov by simp
  note T = viterbi_algorithm_length[OF origin, of "[''x'', ''u'']" "fst M" "fst (snd M)"
      "fst (snd (snd M))" "[''A'', ''B'']"]
  note c1 = T[THEN conjunct1, THEN mp, OF run]
  note c2 = T[THEN conjunct2, THEN mp, OF hyp]
  have "\<exists>init_prob trans_prob emis_prob smoothed_emis_prob.
      train [(''x'', ''A''), (''y'', ''B'')] [''A''] [''A'', ''B''] [''x'', ''u'']
        = Inr (init_prob, trans_prob, emis_prob, smoothed_emis_prob) \<and>
      viterbi_algorithm [''x'', ''u''] [''A'', ''B''] init_prob trans_prob emis_prob
        = Inr [''A'', ''B''] \<and>
      ([''x'', ''u''] \<noteq> [] \<and> [''A'', ''B''] \<noteq> [] \<and>
          (\<forall>j\<in>set [''A'', ''B'']. init_prob j \<noteq> None \<and> emis_prob j \<noteq> None \<and>
             (\<forall>i\<in>set [''A'', ''B'']. \<exists>ti. trans_prob i = Some ti \<and> ti j \<noteq> None)) \<and>
          (\<forall>t j. 0 < t \<and> t < length [''x'', ''u''] \<and> j \<in> set [''A'', ''B''] \<longrightarrow>
             (\<exists>ej. emis_prob j = Some ej \<and> ej ([''x'', ''u''] ! t) \<noteq> None))) \<and>
      (length [''A'', ''B''] = length [''x'', ''u''] \<and>
            (\<exists>chart maximum.
               viterbi_chart [''x'', ''u''] [''A'', ''B''] init_prob trans_prob emis_prob
                 = Inr chart \<and>
               termination_step chart [''A'', ''B''] = Inr maximum \<and>
               [''A'', ''B''] ! (length [''x'', ''u''] - 1) = snd maximum \<and>
               (\<forall>t. Suc t < length [''x'', ''u''] \<longrightarrow>
                  snd (chart ! Suc t) ([''A'', ''B''] ! Suc t) = Some (Str ([''A'', ''B''] ! t))) \<and>
               snd (chart ! 0) ([''A'', ''B''] ! 0) = Some (Str ''origin''))) \<and>
      (\<exists>tags'. viterbi_algorithm [''x'', ''u''] [''A'', ''B''] init_prob trans_prob emis_prob
                  = Inr tags')"
    apply (rule exI[of _ "fst M"])
    apply (rule exI[of _ "fst (snd M)"])
    apply (rule exI[of _ "fst (snd (snd M))"])
    apply (rule exI[of _ "snd (snd (snd M))"])
    apply (rule conjI[OF tr])
    apply (rule conjI[OF run])
    apply (rule conjI[OF hyp])
    apply (rule conjI[OF c1])
    apply (rule c2)
    done
  with origin show ?thesis by (rule conjI)
qed


text \<open>
  The claim as stated fails for a model with the tag \<open>"origin"\<close>: trained on the one tagged
  word \<open>x/origin\<close>, the decoder takes the final tag for the sentinel and returns no tag for
  the observation \<open>x\<close>.
\<close>

theorem origin_tag_counterexample:
  "tag_unsmoothed [(''x'', ''origin'')] [''origin''] [''x''] = Inr []
   \<and> length ([] :: tag list) \<noteq> length [''x'']"
  by (simp add: tag_unsmoothed_def eval_defs)

section \<open>Unknown words\<close>

lemma unknown_words_iff:
  "w \<in> set (unknown_words test_vocab training_obs) \<longleftrightarrow> w \<in> set test_vocab \<and> w \<notin> set training_obs"
  by (auto simp: unknown_words_def)

lemma prob_of_zero: "prob_of (Fin 0) = 1"
  by (simp add: prob_of_def)


text \<open>
  C5 (as amended). \<open>add_emis\<close> gives a word of the test vocabulary that was not seen in
  training the entry \<open>0\<close> under every tag of \<open>pos\<close>: the logarithm of the probability 1,
  as the comment of the function says, not negative infinity.
\<close>

theorem add_emis_unknown_entry:
  assumes e0: "find_emis_prob training_tagged pos = Inr emis_prob"
    and w: "w \<in> set test_vocab" "w \<notin> set (map fst training_tagged)"
    and j: "j \<in> set pos"
  shows "\<exists>emis_prob'.
           add_emis emis_prob pos (unknown_words test_vocab (map fst training_tagged))
             = Inr emis_prob'
           \<and> entry emis_prob' j w = Some (Fin 0) \<and> prob_of (Fin 0) = 1"
proof -
  let ?U = "unknown_words test_vocab (map fst training_tagged)"
  have sub: "snd ` set training_tagged \<subseteq> set pos" by (rule find_emis_prob_Inr[OF e0])
  from find_emis_prob_eq[OF sub] e0 have keys: "\<forall>j\<in>set pos. emis_prob j \<noteq> None" by auto
  from add_emis_total[OF keys] obtain emis_prob' where
    a: "add_emis emis_prob pos ?U = Inr emis_prob'" by blast
  from add_emis_Inr[OF keys a] j obtain row row' where
    "emis_prob' j = Some row'" "\<forall>w. row' w = (if w \<in> set ?U then Some (Fin 0) else row w)"
    by blast
  moreover have "w \<in> set ?U" using w by (simp add: unknown_words_iff)
  ultimately have "entry emis_prob' j w = Some (Fin 0)" by (simp add: entry_def)
  with a prob_of_zero show ?thesis by blast
qed

theorem add_emis_unknown_entry_witness:
  "\<exists>emis_prob. find_emis_prob [(''x'', ''A'')] [''A''] = Inr emis_prob
     \<and> ''u'' \<in> set [''u''] \<and> ''u'' \<notin> set (map fst [(''x'', ''A'')]) \<and> ''A'' \<in> set [''A'']
     \<and> (\<exists>emis_prob'.
           add_emis emis_prob [''A''] (unknown_words [''u''] (map fst [(''x'', ''A'')]))
             = Inr emis_prob'
           \<and> entry emis_prob' ''A'' ''u'' = Some (Fin 0) \<and> prob_of (Fin 0) = 1)"
proof -
  define E where "E = projr (find_emis_prob [(''x'', ''A'')] [''A''])"
  have e0: "find_emis_prob [(''x'', ''A'')] [''A''] = Inr E"
    unfolding E_def by (simp add: eval_defs)
  have h1: "''u'' \<in> set [''u'']" and h2: "''u'' \<notin> set (map fst [(''x'', ''A'')])"
    and h3: "''A'' \<in> set [''A'']" by simp_all
  note c = add_emis_unknown_entry[OF e0 h1 h2 h3]
  show ?thesis
    apply (rule exI[of _ E])
    apply (rule conjI[OF e0])
    apply (rule conjI[OF h1])
    apply (rule conjI[OF h2])
    apply (rule conjI[OF h3])
    apply (rule c)
    done
qed


text \<open>
  The claim as stated fails: trained on the one tagged word \<open>x/A\<close>, the unsmoothed table
  patched for the test word \<open>u\<close> holds \<open>0\<close> for \<open>u\<close> under \<open>A\<close>.
\<close>

theorem unknown_not_neg_inf_counterexample:
  "\<exists>init_prob trans_prob emis_prob smoothed_emis_prob.
     train [(''x'', ''A'')] [''A''] [''A''] [''u'']
       = Inr (init_prob, trans_prob, emis_prob, smoothed_emis_prob)
     \<and> ''u'' \<notin> set (map fst [(''x'', ''A'')])
     \<and> entry emis_prob ''A'' ''u'' = Some (Fin 0)
     \<and> entry emis_prob ''A'' ''u'' \<noteq> Some NegInf"
  by (simp add: eval_defs)


text \<open>
  C6. \<open>laplace_add_emis\<close> stores the residual \<open>unseen_values[j] = 1/(C+V)\<close> itself for a
  word not seen in training, a probability in a table of logarithms; \<open>laplace_emis_prob\<close>
  never takes its logarithm. The residual is positive and its logarithm is at most 0, so
  the stored entry is never the \<open>log2\<close> of the residual that the claim states.
\<close>

theorem laplace_add_emis_unknown_entry:
  assumes tr: "train training_tagged training_sent_init pos test_vocab
                 = Inr (init_prob, trans_prob, emis_prob, smoothed_emis_prob)"
    and w: "w \<in> set test_vocab" "w \<notin> set (map fst training_tagged)"
    and j: "j \<in> set pos"
  shows "entry smoothed_emis_prob j w
           = Some (Fin (1 / (real (count_list (map snd training_tagged) j)
                             + real (length (remdups (map fst training_tagged))))))
         \<and> entry smoothed_emis_prob j w
           \<noteq> Some (Fin (log 2 (1 / (real (count_list (map snd training_tagged) j)
                                     + real (length (remdups (map fst training_tagged)))))))"
proof -
  let ?n = "count_list (map snd training_tagged) j + length (remdups (map fst training_tagged))"
  let ?r = "1 / (real (count_list (map snd training_tagged) j)
                 + real (length (remdups (map fst training_tagged))))"
  have u: "w \<in> set (unknown_words test_vocab (map fst training_tagged))"
    using w by (simp add: unknown_words_iff)
  from train_Inr(4)[OF tr j] u have val: "entry smoothed_emis_prob j w = Some (Fin ?r)"
    by (auto simp: entry_def)
  from train_steps[OF tr] obtain sep0 un where
    "laplace_emis_prob training_tagged pos (length (remdups (map fst training_tagged)))
       = Inr (sep0, un)" by blast
  from laplace_emis_prob_Inr(4)[OF this] j have n0: "?n \<noteq> 0" by blast
  define n where "n = ?n"
  from n0 have "1 \<le> n" unfolding n_def by linarith
  then have n: "1 \<le> real n" by simp
  have r: "?r = 1 / real n" unfolding n_def by simp
  have "0 < 1 / real n" and "1 / real n \<le> 1" using n by simp_all
  then have "0 < ?r" and "?r \<le> 1" unfolding r by simp_all
  then have "log 2 ?r \<le> 0" by simp
  with \<open>0 < ?r\<close> have "?r \<noteq> log 2 ?r" by linarith
  with val show ?thesis by simp
qed

theorem laplace_add_emis_unknown_entry_witness:
  "\<exists>init_prob trans_prob emis_prob smoothed_emis_prob.
     train [(''x'', ''A'')] [''A''] [''A''] [''u'']
       = Inr (init_prob, trans_prob, emis_prob, smoothed_emis_prob)
     \<and> ''u'' \<in> set [''u''] \<and> ''u'' \<notin> set (map fst [(''x'', ''A'')]) \<and> ''A'' \<in> set [''A'']
     \<and> (entry smoothed_emis_prob ''A'' ''u''
           = Some (Fin (1 / (real (count_list (map snd [(''x'', ''A'')]) ''A'')
                             + real (length (remdups (map fst [(''x'', ''A'')]))))))
         \<and> entry smoothed_emis_prob ''A'' ''u''
           \<noteq> Some (Fin (log 2 (1 / (real (count_list (map snd [(''x'', ''A'')]) ''A'')
                                     + real (length (remdups (map fst [(''x'', ''A'')]))))))))
     \<and> entry smoothed_emis_prob ''A'' ''u'' = Some (Fin (1 / 2))"
proof -
  define M where "M = projr (train [(''x'', ''A'')] [''A''] [''A''] [''u''])"
  have tr: "train [(''x'', ''A'')] [''A''] [''A''] [''u'']
            = Inr (fst M, fst (snd M), fst (snd (snd M)), snd (snd (snd M)))"
    unfolding M_def by (simp add: eval_defs)
  have h1: "''u'' \<in> set [''u'']" and h2: "''u'' \<notin> set (map fst [(''x'', ''A'')])"
    and h3: "''A'' \<in> set [''A'']" by simp_all
  note c = laplace_add_emis_unknown_entry[OF tr h1 h2 h3]
  have v: "entry (snd (snd (snd M))) ''A'' ''u'' = Some (Fin (1 / 2))"
    unfolding M_def by (simp add: eval_defs)
  show ?thesis
    apply (rule exI[of _ "fst M"])
    apply (rule exI[of _ "fst (snd M)"])
    apply (rule exI[of _ "fst (snd (snd M))"])
    apply (rule exI[of _ "snd (snd (snd M))"])
    apply (rule conjI[OF tr])
    apply (rule conjI[OF h1])
    apply (rule conjI[OF h2])
    apply (rule conjI[OF h3])
    apply (rule conjI[OF c])
    apply (rule v)
    done
qed

text \<open>
  C10. The model is trained by the script; \<open>emis_prob\<close> and \<open>smoothed_emis_prob\<close> are the
  tables before the patch, the primed ones after it. Every unknown word has an entry under
  every tag in both patched tables; every entry of a table before the patch is in the
  patched table with the same value; and a word of the training vocabulary that was never
  seen with the tag \<open>j\<close> has no entry under \<open>j\<close> after the patch either, whether or not the
  test vocabulary contains it.
\<close>

theorem unknown_word_patch_frame:
  assumes tr: "train training_tagged training_sent_init pos test_vocab
                 = Inr (init_prob, trans_prob, emis_prob', smoothed_emis_prob')"
    and e0: "find_emis_prob training_tagged pos = Inr emis_prob"
    and l0: "laplace_emis_prob training_tagged pos (length (remdups (map fst training_tagged)))
               = Inr (smoothed_emis_prob, unseen_values)"
  shows "(\<forall>w\<in>set (unknown_words test_vocab (map fst training_tagged)). \<forall>j\<in>set pos.
            entry emis_prob' j w \<noteq> None \<and> entry smoothed_emis_prob' j w \<noteq> None)
       \<and> (\<forall>j w s. entry emis_prob j w = Some s \<longrightarrow> entry emis_prob' j w = Some s)
       \<and> (\<forall>j w s. entry smoothed_emis_prob j w = Some s \<longrightarrow>
                     entry smoothed_emis_prob' j w = Some s)
       \<and> (\<forall>j w. w \<in> set (map fst training_tagged) \<and> (w, j) \<notin> set training_tagged \<longrightarrow>
                   entry emis_prob' j w = None \<and> entry smoothed_emis_prob' j w = None)"
proof -
  let ?U = "unknown_words test_vocab (map fst training_tagged)"
  have sub: "snd ` set training_tagged \<subseteq> set pos" by (rule train_Inr(1)[OF tr])
  note ep0 = find_emis_prob_eq[OF sub]
  note sep0 = laplace_emis_prob_Inr(2)[OF l0]
  have known: "w \<notin> set ?U" if "w \<in> set (map fst training_tagged)" for w
    using that by (simp add: unknown_words_iff)
  have seen: "w \<in> set (map fst training_tagged)" if "(w, j) \<in> set training_tagged" for w j
    using that by force
  have a: "\<forall>w\<in>set ?U. \<forall>j\<in>set pos.
            entry emis_prob' j w \<noteq> None \<and> entry smoothed_emis_prob' j w \<noteq> None"
  proof (intro ballI)
    fix w j assume w: "w \<in> set ?U" and j: "j \<in> set pos"
    from train_Inr(3)[OF tr j] w have "entry emis_prob' j w \<noteq> None"
      by (auto simp: entry_def)
    moreover from train_Inr(4)[OF tr j] w have "entry smoothed_emis_prob' j w \<noteq> None"
      by (auto simp: entry_def)
    ultimately show "entry emis_prob' j w \<noteq> None \<and> entry smoothed_emis_prob' j w \<noteq> None" ..
  qed
  have b: "\<forall>j w s. entry emis_prob j w = Some s \<longrightarrow> entry emis_prob' j w = Some s"
  proof (intro allI impI)
    fix j w s assume "entry emis_prob j w = Some s"
    with ep0 e0 have j: "j \<in> set pos" and p: "(w, j) \<in> set training_tagged"
      and s: "s = log_prob (real (count_list training_tagged (w, j))
                            / real (count_list (map snd training_tagged) j))"
      by (auto simp: entry_def split: if_splits)
    from train_Inr(3)[OF tr j] known[OF seen[OF p]] p s
    show "entry emis_prob' j w = Some s" by (auto simp: entry_def)
  qed
  have c: "\<forall>j w s. entry smoothed_emis_prob j w = Some s \<longrightarrow>
                     entry smoothed_emis_prob' j w = Some s"
  proof (intro allI impI)
    fix j w s assume "entry smoothed_emis_prob j w = Some s"
    with sep0 have j: "j \<in> set pos" and p: "(w, j) \<in> set training_tagged"
      and s: "s = log_prob ((real (count_list training_tagged (w, j)) + 1)
                   / (real (count_list (map snd training_tagged) j)
                      + real (length (remdups (map fst training_tagged)))))"
      by (auto simp: entry_def split: if_splits)
    from train_Inr(4)[OF tr j] known[OF seen[OF p]] p s
    show "entry smoothed_emis_prob' j w = Some s" by (auto simp: entry_def)
  qed
  have d: "\<forall>j w. w \<in> set (map fst training_tagged) \<and> (w, j) \<notin> set training_tagged \<longrightarrow>
                   entry emis_prob' j w = None \<and> entry smoothed_emis_prob' j w = None"
  proof (intro allI impI)
    fix j w assume h: "w \<in> set (map fst training_tagged) \<and> (w, j) \<notin> set training_tagged"
    then have k: "w \<notin> set ?U" and n: "(w, j) \<notin> set training_tagged" using known by auto
    show "entry emis_prob' j w = None \<and> entry smoothed_emis_prob' j w = None"
    proof (cases "j \<in> set pos")
      case True
      from train_Inr(3)[OF tr True] train_Inr(4)[OF tr True] k n show ?thesis
        by (auto simp: entry_def)
    next
      case False
      from train_Inr(5)[OF tr False] show ?thesis by (simp add: entry_def)
    qed
  qed
  from a b c d show ?thesis by (intro conjI)
qed

theorem unknown_word_patch_frame_witness:
  "\<exists>init_prob trans_prob emis_prob' smoothed_emis_prob' emis_prob smoothed_emis_prob unseen_values.
     train [(''x'', ''A''), (''y'', ''B'')] [''A''] [''A'', ''B''] [''x'', ''u'']
       = Inr (init_prob, trans_prob, emis_prob', smoothed_emis_prob')
     \<and> find_emis_prob [(''x'', ''A''), (''y'', ''B'')] [''A'', ''B''] = Inr emis_prob
     \<and> laplace_emis_prob [(''x'', ''A''), (''y'', ''B'')] [''A'', ''B'']
          (length (remdups (map fst [(''x'', ''A''), (''y'', ''B'')])))
          = Inr (smoothed_emis_prob, unseen_values)
     \<and> ((\<forall>w\<in>set (unknown_words [''x'', ''u''] (map fst [(''x'', ''A''), (''y'', ''B'')])).
           \<forall>j\<in>set [''A'', ''B''].
            entry emis_prob' j w \<noteq> None \<and> entry smoothed_emis_prob' j w \<noteq> None)
       \<and> (\<forall>j w s. entry emis_prob j w = Some s \<longrightarrow> entry emis_prob' j w = Some s)
       \<and> (\<forall>j w s. entry smoothed_emis_prob j w = Some s \<longrightarrow>
                     entry smoothed_emis_prob' j w = Some s)
       \<and> (\<forall>j w. w \<in> set (map fst [(''x'', ''A''), (''y'', ''B'')])
                   \<and> (w, j) \<notin> set [(''x'', ''A''), (''y'', ''B'')] \<longrightarrow>
                   entry emis_prob' j w = None \<and> entry smoothed_emis_prob' j w = None))
     \<and> ''x'' \<in> set [''x'', ''u''] \<and> ''B'' \<in> set [''A'', ''B'']
     \<and> entry emis_prob' ''B'' ''x'' = None \<and> entry smoothed_emis_prob' ''B'' ''x'' = None
     \<and> entry emis_prob' ''B'' ''u'' \<noteq> None"
proof -
  define M where
    "M = projr (train [(''x'', ''A''), (''y'', ''B'')] [''A''] [''A'', ''B''] [''x'', ''u''])"
  define E where "E = projr (find_emis_prob [(''x'', ''A''), (''y'', ''B'')] [''A'', ''B''])"
  define L where "L = projr (laplace_emis_prob [(''x'', ''A''), (''y'', ''B'')] [''A'', ''B'']
          (length (remdups (map fst [(''x'', ''A''), (''y'', ''B'')]))))"
  have tr: "train [(''x'', ''A''), (''y'', ''B'')] [''A''] [''A'', ''B''] [''x'', ''u'']
            = Inr (fst M, fst (snd M), fst (snd (snd M)), snd (snd (snd M)))"
    unfolding M_def by (simp add: eval_defs)
  have e0: "find_emis_prob [(''x'', ''A''), (''y'', ''B'')] [''A'', ''B''] = Inr E"
    unfolding E_def by (simp add: eval_defs)
  have l0: "laplace_emis_prob [(''x'', ''A''), (''y'', ''B'')] [''A'', ''B'']
          (length (remdups (map fst [(''x'', ''A''), (''y'', ''B'')]))) = Inr (fst L, snd L)"
    unfolding L_def by (simp add: eval_defs)
  note c = unknown_word_patch_frame[OF tr e0 l0]
  have v: "''x'' \<in> set [''x'', ''u''] \<and> ''B'' \<in> set [''A'', ''B'']
     \<and> entry (fst (snd (snd M))) ''B'' ''x'' = None
     \<and> entry (snd (snd (snd M))) ''B'' ''x'' = None
     \<and> entry (fst (snd (snd M))) ''B'' ''u'' \<noteq> None"
    unfolding M_def by (simp add: eval_defs)
  show ?thesis
    apply (rule exI[of _ "fst M"])
    apply (rule exI[of _ "fst (snd M)"])
    apply (rule exI[of _ "fst (snd (snd M))"])
    apply (rule exI[of _ "snd (snd (snd M))"])
    apply (rule exI[of _ E])
    apply (rule exI[of _ "fst L"])
    apply (rule exI[of _ "snd L"])
    apply (rule conjI[OF tr])
    apply (rule conjI[OF e0])
    apply (rule conjI[OF l0])
    apply (rule conjI[OF c])
    apply (rule v)
    done
qed

section \<open>Counts of transitions and sums of rows\<close>

lemma trans_counts_Nil:
  "(\<lambda>p. if p \<in> set pos then Some (empty_dic pos) else None) = trans_counts pos []"
  by (simp add: trans_counts_def empty_dic_def fun_eq_iff)

lemma trans_counts_step:
  assumes "a \<in> set pos" "b \<in> set pos"
  shows "(trans_counts pos ps)(a \<mapsto>
            (\<lambda>j. if j \<in> set pos then Some (count_list ps (a, j)) else None)
              (b \<mapsto> count_list ps (a, b) + 1))
         = trans_counts pos (ps @ [(a, b)])"
  using assms by (auto simp: trans_counts_def fun_eq_iff)

lemma count_transitions_eq:
  "set tags \<subseteq> set pos \<Longrightarrow>
     count_transitions tags (trans_counts pos ps) = Inr (trans_counts pos (ps @ zip tags (tl tags)))"
proof (induction tags arbitrary: ps)
  case Nil
  then show ?case by simp
next
  case (Cons a rest)
  show ?case
  proof (cases rest)
    case Nil
    then show ?thesis by simp
  next
    case (Cons b rest')
    with Cons.prems have a: "a \<in> set pos" and b: "b \<in> set pos"
      and sub: "set rest \<subseteq> set pos" by auto
    have "count_transitions (a # rest) (trans_counts pos ps)
            = count_transitions rest ((trans_counts pos ps)(a \<mapsto>
                (\<lambda>j. if j \<in> set pos then Some (count_list ps (a, j)) else None)
                  (b \<mapsto> count_list ps (a, b) + 1)))"
      using Cons a b by (simp add: trans_counts_def)
    also have "\<dots> = count_transitions rest (trans_counts pos (ps @ [(a, b)]))"
      by (simp only: trans_counts_step[OF a b])
    also have "\<dots> = Inr (trans_counts pos ((ps @ [(a, b)]) @ zip rest (tl rest)))"
      by (rule Cons.IH[OF sub])
    finally show ?thesis using Cons by simp
  qed
qed

lemma find_trans_prob_eq:
  assumes "set pos = set tags"
  shows "find_trans_prob tags pos =
     Inr (\<lambda>i. if i \<in> set pos
              then Some (\<lambda>j. if j \<in> set pos
                             then Some (log_prob (real (count_list (zip tags (tl tags)) (i, j))
                                                  / real (count_list tags i)))
                             else None)
              else None)"
proof -
  have sub: "set tags \<subseteq> set pos" using assms by simp
  have "count_transitions tags (trans_counts pos [])
          = Inr (trans_counts pos ([] @ zip tags (tl tags)))"
    by (rule count_transitions_eq[OF sub])
  then have "count_transitions tags (\<lambda>p. if p \<in> set pos then Some (empty_dic pos) else None)
          = Inr (trans_counts pos (zip tags (tl tags)))"
    by (simp only: trans_counts_Nil append_Nil)
  moreover have "\<not> (\<exists>tag\<in>set pos. count_list tags tag = 0)"
    using assms by (simp add: count_list_0_iff)
  ultimately show ?thesis
    by (simp add: find_trans_prob_def trans_counts_def fun_eq_iff)
qed

lemma prob_of_log_prob: "0 \<le> p \<Longrightarrow> prob_of (log_prob p) = p"
  by (simp add: prob_of_def log_prob_def)

lemma sum_count_snd:
  "finite S \<Longrightarrow> snd ` set ps \<subseteq> S \<Longrightarrow>
     (\<Sum>j\<in>S. count_list ps (i, j)) = count_list (map fst ps) i"
proof (induction ps)
  case Nil
  then show ?case by simp
next
  case (Cons p ps)
  obtain a b where p: "p = (a, b)" by (cases p)
  with Cons.prems have b: "b \<in> S" and sub: "snd ` set ps \<subseteq> S" by auto
  have "(\<Sum>j\<in>S. count_list (p # ps) (i, j))
          = (\<Sum>j\<in>S. count_list ps (i, j) + (if b = j then (if a = i then 1 else 0) else 0))"
    by (rule sum.cong) (auto simp: p)
  also have "\<dots> = (\<Sum>j\<in>S. count_list ps (i, j))
                    + (\<Sum>j\<in>S. if b = j then (if a = i then 1 else 0) else 0)"
    by (rule sum.distrib)
  also have "(\<Sum>j\<in>S. if b = j then (if a = i then 1 else 0) else 0) = (if a = i then 1 else (0::nat))"
    using Cons.prems(1) b by (simp add: sum.delta')
  finally show ?case using Cons.IH[OF Cons.prems(1) sub] p by simp
qed

lemma sum_count_fst:
  "(\<Sum>w\<in>{w. (w, t) \<in> set xs}. count_list xs (w, t)) = count_list (map snd xs) t"
proof -
  have dom: "dom (\<lambda>w. if (w, t) \<in> set xs then Some (count_list xs (w, t)) else None)
               = {w. (w, t) \<in> set xs}"
    by (auto simp: dom_def)
  have "(\<Sum>w\<in>{w. (w, t) \<in> set xs}. count_list xs (w, t))
          = sum_values (\<lambda>w. if (w, t) \<in> set xs then Some (count_list xs (w, t)) else None)"
    unfolding sum_values_def dom by (rule sum.cong) simp_all
  then show ?thesis by (simp add: sum_values_emis_row)
qed

lemma finite_words_of_tag: "finite {w. (w, t) \<in> set xs}"
proof (rule finite_subset)
  show "{w. (w, t) \<in> set xs} \<subseteq> fst ` set xs" by force
  show "finite (fst ` set xs)" by simp
qed

lemma map_fst_zip_tl: "map fst (zip xs (tl xs)) = butlast xs"
  by (induction xs) (auto simp: butlast_conv_take map_fst_zip_take min_def)

lemma count_list_butlast:
  "xs \<noteq> [] \<Longrightarrow> count_list (butlast xs) i = count_list xs i - (if last xs = i then 1 else 0)"
proof -
  assume "xs \<noteq> []"
  then have "xs = butlast xs @ [last xs]" by simp
  then have "count_list xs i = count_list (butlast xs @ [last xs]) i" by simp
  then show ?thesis by simp
qed

lemma row_sum_log_prob:
  assumes "finite {k. P k}" "\<And>k. P k \<Longrightarrow> 0 \<le> f k"
  shows "row_sum (\<lambda>k. if P k then Some (log_prob (f k)) else None) = (\<Sum>k | P k. f k)"
proof -
  have dom: "dom (\<lambda>k. if P k then Some (log_prob (f k)) else None) = {k. P k}"
    by (auto simp: dom_def)
  show ?thesis unfolding row_sum_def dom
    by (rule sum.cong) (simp_all add: prob_of_log_prob assms(2))
qed

lemma init_row_sum:
  assumes "xs \<noteq> []" "set xs \<subseteq> set pos"
  shows "row_sum (\<lambda>p. if p \<in> set pos
                      then Some (log_prob (real (count_list xs p) / real (length xs)))
                      else None) = 1"
proof -
  have "row_sum (\<lambda>p. if p \<in> set pos
                      then Some (log_prob (real (count_list xs p) / real (length xs)))
                      else None)
        = (\<Sum>p | p \<in> set pos. real (count_list xs p) / real (length xs))"
    by (rule row_sum_log_prob) simp_all
  also have "\<dots> = real (\<Sum>p\<in>set pos. count_list xs p) / real (length xs)"
    by (simp add: sum_divide_distrib)
  also have "(\<Sum>p\<in>set pos. count_list xs p) = length xs"
    by (rule sum_count_set[OF assms(2)]) simp
  finally show ?thesis using assms(1) by simp
qed

lemma emis_row_sum:
  assumes "j \<in> set (map snd tagged)"
  shows "row_sum (\<lambda>w. if (w, j) \<in> set tagged
                      then Some (log_prob (real (count_list tagged (w, j))
                                           / real (count_list (map snd tagged) j)))
                      else None) = 1"
proof -
  have "row_sum (\<lambda>w. if (w, j) \<in> set tagged
                      then Some (log_prob (real (count_list tagged (w, j))
                                           / real (count_list (map snd tagged) j)))
                      else None)
        = (\<Sum>w | (w, j) \<in> set tagged.
             real (count_list tagged (w, j)) / real (count_list (map snd tagged) j))"
    by (rule row_sum_log_prob) (simp_all add: finite_words_of_tag)
  also have "\<dots> = real (\<Sum>w | (w, j) \<in> set tagged. count_list tagged (w, j))
                    / real (count_list (map snd tagged) j)"
    by (simp add: sum_divide_distrib)
  also have "(\<Sum>w | (w, j) \<in> set tagged. count_list tagged (w, j))
               = count_list (map snd tagged) j"
    by (rule sum_count_fst)
  finally show ?thesis using assms by (simp add: count_list_0_iff)
qed

lemma trans_row_sum:
  assumes "set pos = set tags" "i \<in> set pos"
  shows "row_sum (\<lambda>j. if j \<in> set pos
                      then Some (log_prob (real (count_list (zip tags (tl tags)) (i, j))
                                           / real (count_list tags i)))
                      else None)
         = (if i = last tags then (real (count_list tags i) - 1) / real (count_list tags i)
            else 1)"
proof -
  from assms have ne: "tags \<noteq> []" by auto
  from assms have "count_list tags i \<noteq> 0" by (simp add: count_list_0_iff)
  then have cnt: "0 < count_list tags i" by simp
  have sub: "snd ` set (zip tags (tl tags)) \<subseteq> set pos"
  proof
    fix b assume "b \<in> snd ` set (zip tags (tl tags))"
    then obtain a where "(a, b) \<in> set (zip tags (tl tags))" by force
    then have "b \<in> set (tl tags)" by (rule set_zip_rightD)
    then have "b \<in> set tags" by (rule list.set_sel(2)[rotated]) (use ne in simp)
    with assms(1) show "b \<in> set pos" by simp
  qed
  have "row_sum (\<lambda>j. if j \<in> set pos
                      then Some (log_prob (real (count_list (zip tags (tl tags)) (i, j))
                                           / real (count_list tags i)))
                      else None)
        = (\<Sum>j | j \<in> set pos. real (count_list (zip tags (tl tags)) (i, j))
                                  / real (count_list tags i))"
    by (rule row_sum_log_prob) simp_all
  also have "\<dots> = real (\<Sum>j\<in>set pos. count_list (zip tags (tl tags)) (i, j))
                    / real (count_list tags i)"
    by (simp add: sum_divide_distrib)
  also have "(\<Sum>j\<in>set pos. count_list (zip tags (tl tags)) (i, j))
               = count_list (map fst (zip tags (tl tags))) i"
    by (rule sum_count_snd[OF _ sub]) simp
  also have "\<dots> = count_list tags i - (if last tags = i then 1 else 0)"
    by (simp only: map_fst_zip_tl count_list_butlast[OF ne])
  finally have eq: "row_sum (\<lambda>j. if j \<in> set pos
                      then Some (log_prob (real (count_list (zip tags (tl tags)) (i, j))
                                           / real (count_list tags i)))
                      else None)
        = real (count_list tags i - (if last tags = i then 1 else 0)) / real (count_list tags i)" .
  show ?thesis
  proof (cases "i = last tags")
    case True
    with eq cnt show ?thesis by (simp add: of_nat_diff)
  next
    case False
    with eq cnt show ?thesis by auto
  qed
qed

lemma laplace_row_sum_aux:
  assumes l0: "laplace_emis_prob tagged pos (length (remdups (map fst tagged))) = Inr (sep, un)"
    and j: "j \<in> set pos"
  shows "\<exists>row u. sep j = Some row \<and> un j = Some u
      \<and> u = 1 / (real (count_list (map snd tagged) j) + real (length (remdups (map fst tagged))))
      \<and> row_sum row
          = (real (count_list (map snd tagged) j) + real (card {w. (w, j) \<in> set tagged}))
            / (real (count_list (map snd tagged) j) + real (length (remdups (map fst tagged))))
      \<and> 0 < real (count_list (map snd tagged) j) + real (length (remdups (map fst tagged)))"
proof -
  let ?C = "count_list (map snd tagged) j"
  let ?V = "length (remdups (map fst tagged))"
  let ?n = "card {w. (w, j) \<in> set tagged}"
  let ?row = "\<lambda>w. if (w, j) \<in> set tagged
                   then Some (log_prob ((real (count_list tagged (w, j)) + 1) / (real ?C + real ?V)))
                   else None"
  from laplace_emis_prob_Inr(2)[OF l0] j have row: "sep j = Some ?row" by simp
  from laplace_emis_prob_Inr(3)[OF l0] j have u: "un j = Some (1 / (real ?C + real ?V))" by simp
  from laplace_emis_prob_Inr(4)[OF l0] j have "?C + ?V \<noteq> 0" by blast
  then have "0 < ?C + ?V" by simp
  then have "0 < real (?C + ?V)" by (simp only: of_nat_0_less_iff)
  then have cv: "0 < real ?C + real ?V" by (simp only: of_nat_add)
  have "row_sum ?row = (\<Sum>w | (w, j) \<in> set tagged.
                          (real (count_list tagged (w, j)) + 1) / (real ?C + real ?V))"
    by (rule row_sum_log_prob) (simp_all add: finite_words_of_tag)
  also have "\<dots> = (\<Sum>w | (w, j) \<in> set tagged. real (count_list tagged (w, j)) + 1)
                    / (real ?C + real ?V)"
    by (simp only: sum_divide_distrib)
  also have "(\<Sum>w | (w, j) \<in> set tagged. real (count_list tagged (w, j)) + 1)
               = real (\<Sum>w | (w, j) \<in> set tagged. count_list tagged (w, j)) + real ?n"
    by (simp add: sum.distrib)
  also have "(\<Sum>w | (w, j) \<in> set tagged. count_list tagged (w, j)) = ?C"
    by (rule sum_count_fst)
  finally have rs: "row_sum ?row = (real ?C + real ?n) / (real ?C + real ?V)" .
  show ?thesis
    apply (rule exI[of _ ?row])
    apply (rule exI[of _ "1 / (real ?C + real ?V)"])
    apply (rule conjI[OF row])
    apply (rule conjI[OF u])
    apply (rule conjI[OF refl])
    apply (rule conjI[OF rs])
    apply (rule cv)
    done
qed

section \<open>Transition estimation\<close>

lemma log2_two_thirds_neg: "log 2 (2 / 3 :: real) < 0"
  by (subst log_less_zero_cancel_iff) simp_all

lemma log2_two_thirds_nonzero: "log 2 (2 / 3 :: real) \<noteq> 0"
  using log2_two_thirds_neg by linarith

lemma trans_scenario:
  "find_trans_prob [''A'', ''B'', ''A'', ''B'', ''A''] [''A'', ''B'']
     = Inr (\<lambda>i. if i \<in> set [''A'', ''B'']
              then Some (\<lambda>j. if j \<in> set [''A'', ''B'']
                             then Some (log_prob (real (count_list
                                   (zip [''A'', ''B'', ''A'', ''B'', ''A'']
                                        (tl [''A'', ''B'', ''A'', ''B'', ''A''])) (i, j))
                                   / real (count_list [''A'', ''B'', ''A'', ''B'', ''A''] i)))
                             else None)
              else None)"
  by (rule find_trans_prob_eq) auto

text \<open>
  C2 (as amended). \<open>find_trans_prob\<close> divides the number of transitions from a tag \<open>i\<close> to a
  tag \<open>j\<close> by the number of occurrences of \<open>i\<close> in the training tags (\<open>total_count[i]\<close>),
  not by the number of transitions that leave \<open>i\<close>. For the tag sequence \<open>[A,B,A,B,A]\<close>
  the tag \<open>A\<close> occurs three times and is left twice, so \<open>transition[A][B] = log2(2/3)\<close>,
  while \<open>transition[B][A] = log2(2/2) = 0\<close>.
\<close>

theorem find_trans_prob_total_count:
  "(\<exists>trans_prob. find_trans_prob [''A'', ''B'', ''A'', ''B'', ''A''] [''A'', ''B''] = Inr trans_prob
      \<and> entry trans_prob ''A'' ''B'' = Some (Fin (log 2 (2 / 3)))
      \<and> entry trans_prob ''B'' ''A'' = Some (Fin 0))
   \<and> (set pos = set training_tags \<and> i \<in> set pos \<and> j \<in> set pos \<longrightarrow>
        (\<exists>trans_prob. find_trans_prob training_tags pos = Inr trans_prob
           \<and> entry trans_prob i j
               = Some (log_prob (real (count_list (zip training_tags (tl training_tags)) (i, j))
                                 / real (count_list training_tags i)))))"
proof (intro conjI impI)
  show "\<exists>trans_prob. find_trans_prob [''A'', ''B'', ''A'', ''B'', ''A''] [''A'', ''B''] = Inr trans_prob
      \<and> entry trans_prob ''A'' ''B'' = Some (Fin (log 2 (2 / 3)))
      \<and> entry trans_prob ''B'' ''A'' = Some (Fin 0)"
    by (simp add: trans_scenario entry_def log_prob_def)
next
  assume a: "set pos = set training_tags \<and> i \<in> set pos \<and> j \<in> set pos"
  then have eq: "set pos = set training_tags" and i: "i \<in> set pos" and j: "j \<in> set pos"
    by blast+
  from find_trans_prob_eq[OF eq] i j
  show "\<exists>trans_prob. find_trans_prob training_tags pos = Inr trans_prob
           \<and> entry trans_prob i j
               = Some (log_prob (real (count_list (zip training_tags (tl training_tags)) (i, j))
                                 / real (count_list training_tags i)))"
    by (simp add: entry_def)
qed

theorem find_trans_prob_total_count_witness:
  "set [''A'', ''B''] = set [''A'', ''B'', ''A'', ''B'', ''A'']
     \<and> ''A'' \<in> set [''A'', ''B''] \<and> ''B'' \<in> set [''A'', ''B'']
     \<and> (\<exists>trans_prob. find_trans_prob [''A'', ''B'', ''A'', ''B'', ''A''] [''A'', ''B'']
            = Inr trans_prob
           \<and> entry trans_prob ''A'' ''B''
               = Some (log_prob (real (count_list (zip [''A'', ''B'', ''A'', ''B'', ''A'']
                                          (tl [''A'', ''B'', ''A'', ''B'', ''A'']))
                                        (''A'', ''B''))
                                 / real (count_list [''A'', ''B'', ''A'', ''B'', ''A''] ''A''))))
     \<and> log_prob (real (count_list (zip [''A'', ''B'', ''A'', ''B'', ''A'']
                                          (tl [''A'', ''B'', ''A'', ''B'', ''A'']))
                                        (''A'', ''B''))
                 / real (count_list [''A'', ''B'', ''A'', ''B'', ''A''] ''A''))
         = Fin (log 2 (2 / 3))"
proof -
  have h: "set [''A'', ''B''] = set [''A'', ''B'', ''A'', ''B'', ''A'']
     \<and> ''A'' \<in> set [''A'', ''B''] \<and> ''B'' \<in> set [''A'', ''B'']" by auto
  note c = find_trans_prob_total_count[THEN conjunct2, THEN mp, OF h]
  have v: "log_prob (real (count_list (zip [''A'', ''B'', ''A'', ''B'', ''A'']
                                          (tl [''A'', ''B'', ''A'', ''B'', ''A'']))
                                        (''A'', ''B''))
                 / real (count_list [''A'', ''B'', ''A'', ''B'', ''A''] ''A''))
         = Fin (log 2 (2 / 3))"
    by (simp add: log_prob_def)
  from h c v show ?thesis by simp
qed

text \<open>
  The claim as stated fails: for \<open>[A,B,A,B,A]\<close> the entry \<open>transition[A][B]\<close> is
  \<open>log2(2/3)\<close>, not 0.
\<close>

theorem transition_scenario_counterexample:
  "\<exists>trans_prob. find_trans_prob [''A'', ''B'', ''A'', ''B'', ''A''] [''A'', ''B''] = Inr trans_prob
      \<and> entry trans_prob ''A'' ''B'' = Some (Fin (log 2 (2 / 3)))
      \<and> entry trans_prob ''A'' ''B'' \<noteq> Some (Fin 0)"
  by (simp add: trans_scenario entry_def log_prob_def log2_two_thirds_nonzero)

section \<open>Sums of the rows of the trained tables\<close>

text \<open>
  C3 (as amended). The corpus is not empty, there is a sentence-initial tag, the
  sentence-initial tags are tags of the corpus, and \<open>pos\<close> is the set of the corpus tags.
  Then the three training functions return their tables; the initial table sums to 1, the
  emission row of every tag sums to 1, and the transition row of a source tag sums to 1
  unless the tag is the last one of the training sequence: that tag occurs \<open>n\<close> times but
  is left only \<open>n - 1\<close> times, and its row sums to \<open>(n - 1) / n\<close>. The sums are of the
  exponentiated entries, an entry at negative infinity adding nothing, in exact arithmetic.
\<close>

theorem trained_rows_sum:
  assumes ne: "training_tagged \<noteq> []" and ne_init: "training_sent_init \<noteq> []"
    and init_tags: "set training_sent_init \<subseteq> set pos"
    and pos: "set pos = set (map snd training_tagged)"
  shows "\<exists>init_prob trans_prob emis_prob.
      find_init_prob training_sent_init pos = Inr init_prob
    \<and> find_trans_prob (map snd training_tagged) pos = Inr trans_prob
    \<and> find_emis_prob training_tagged pos = Inr emis_prob
    \<and> row_sum init_prob = 1
    \<and> (\<forall>j\<in>set pos. \<exists>row. emis_prob j = Some row \<and> row_sum row = 1)
    \<and> (\<forall>i\<in>set pos. \<exists>row. trans_prob i = Some row \<and>
          row_sum row = (if i = last (map snd training_tagged)
                         then (real (count_list (map snd training_tagged) i) - 1)
                              / real (count_list (map snd training_tagged) i)
                         else 1))"
proof -
  let ?tags = "map snd training_tagged"
  let ?ip = "\<lambda>p. if p \<in> set pos
                  then Some (log_prob (real (count_list training_sent_init p)
                                       / real (length training_sent_init)))
                  else None"
  let ?tp = "\<lambda>i. if i \<in> set pos
              then Some (\<lambda>j. if j \<in> set pos
                             then Some (log_prob (real (count_list (zip ?tags (tl ?tags)) (i, j))
                                                  / real (count_list ?tags i)))
                             else None)
              else None"
  let ?ep = "\<lambda>t. if t \<in> set pos
              then Some (\<lambda>w. if (w, t) \<in> set training_tagged
                             then Some (log_prob (real (count_list training_tagged (w, t))
                                                  / real (count_list ?tags t)))
                             else None)
              else None"
  have i: "find_init_prob training_sent_init pos = Inr ?ip"
    using ne_init by (simp add: find_init_prob_def)
  have t: "find_trans_prob ?tags pos = Inr ?tp" by (rule find_trans_prob_eq[OF pos])
  have sub: "snd ` set training_tagged \<subseteq> set pos" using pos by simp
  have e: "find_emis_prob training_tagged pos = Inr ?ep" by (rule find_emis_prob_eq[OF sub])
  have si: "row_sum ?ip = 1" by (rule init_row_sum[OF ne_init init_tags])
  have se: "\<forall>j\<in>set pos. \<exists>row. ?ep j = Some row \<and> row_sum row = 1"
  proof
    fix j assume j: "j \<in> set pos"
    with pos have "j \<in> set ?tags" by simp
    from emis_row_sum[OF this] j show "\<exists>row. ?ep j = Some row \<and> row_sum row = 1" by simp
  qed
  have st: "\<forall>i\<in>set pos. \<exists>row. ?tp i = Some row \<and>
          row_sum row = (if i = last ?tags
                         then (real (count_list ?tags i) - 1) / real (count_list ?tags i)
                         else 1)"
  proof
    fix i assume i: "i \<in> set pos"
    from trans_row_sum[OF pos i] i
    show "\<exists>row. ?tp i = Some row \<and>
          row_sum row = (if i = last ?tags
                         then (real (count_list ?tags i) - 1) / real (count_list ?tags i)
                         else 1)" by simp
  qed
  show ?thesis
    apply (rule exI[of _ ?ip])
    apply (rule exI[of _ ?tp])
    apply (rule exI[of _ ?ep])
    apply (rule conjI[OF i])
    apply (rule conjI[OF t])
    apply (rule conjI[OF e])
    apply (rule conjI[OF si])
    apply (rule conjI[OF se])
    apply (rule st)
    done
qed

theorem trained_rows_sum_witness:
  "[(''x'', ''A''), (''y'', ''B''), (''x'', ''A''), (''y'', ''B''), (''x'', ''A'')] \<noteq> []
   \<and> [''A'', ''A'', ''B''] \<noteq> []
   \<and> set [''A'', ''A'', ''B''] \<subseteq> set [''A'', ''B'']
   \<and> set [''A'', ''B'']
       = set (map snd [(''x'', ''A''), (''y'', ''B''), (''x'', ''A''), (''y'', ''B''), (''x'', ''A'')])
   \<and> (\<exists>init_prob trans_prob emis_prob.
      find_init_prob [''A'', ''A'', ''B''] [''A'', ''B''] = Inr init_prob
    \<and> find_trans_prob
         (map snd [(''x'', ''A''), (''y'', ''B''), (''x'', ''A''), (''y'', ''B''), (''x'', ''A'')])
         [''A'', ''B''] = Inr trans_prob
    \<and> find_emis_prob
         [(''x'', ''A''), (''y'', ''B''), (''x'', ''A''), (''y'', ''B''), (''x'', ''A'')]
         [''A'', ''B''] = Inr emis_prob
    \<and> row_sum init_prob = 1
    \<and> (\<forall>j\<in>set [''A'', ''B'']. \<exists>row. emis_prob j = Some row \<and> row_sum row = 1)
    \<and> (\<forall>i\<in>set [''A'', ''B'']. \<exists>row. trans_prob i = Some row \<and>
          row_sum row =
            (if i = last (map snd [(''x'', ''A''), (''y'', ''B''), (''x'', ''A''), (''y'', ''B''),
                                   (''x'', ''A'')])
             then (real (count_list (map snd [(''x'', ''A''), (''y'', ''B''), (''x'', ''A''),
                                              (''y'', ''B''), (''x'', ''A'')]) i) - 1)
                  / real (count_list (map snd [(''x'', ''A''), (''y'', ''B''), (''x'', ''A''),
                                              (''y'', ''B''), (''x'', ''A'')]) i)
             else 1)))"
proof -
  have h1: "[(''x'', ''A''), (''y'', ''B''), (''x'', ''A''), (''y'', ''B''), (''x'', ''A'')] \<noteq> []"
    and h2: "[''A'', ''A'', ''B''] \<noteq> []"
    and h3: "set [''A'', ''A'', ''B''] \<subseteq> set [''A'', ''B'']"
    and h4: "set [''A'', ''B'']
       = set (map snd [(''x'', ''A''), (''y'', ''B''), (''x'', ''A''), (''y'', ''B''), (''x'', ''A'')])"
    by auto
  note c = trained_rows_sum[OF h1 h2 h3 h4]
  show ?thesis
    apply (rule conjI[OF h1])
    apply (rule conjI[OF h2])
    apply (rule conjI[OF h3])
    apply (rule conjI[OF h4])
    apply (rule c)
    done
qed

text \<open>
  The claim as stated fails for the transition row of the tag that ends the training
  sequence: for the tags \<open>[A,B,A,B,A]\<close> the row of \<open>A\<close> sums to \<open>2/3\<close>.
\<close>

theorem transition_row_sum_counterexample:
  "\<exists>trans_prob row.
     find_trans_prob
       (map snd [(''x'', ''A''), (''y'', ''B''), (''x'', ''A''), (''y'', ''B''), (''x'', ''A'')])
       [''A'', ''B''] = Inr trans_prob
     \<and> trans_prob ''A'' = Some row \<and> row_sum row = 2 / 3
     \<and> \<not> \<bar>row_sum row - 1\<bar> \<le> 1 / 10 ^ 9"
proof -
  let ?tags = "[''A'', ''B'', ''A'', ''B'', ''A'']"
  let ?row = "\<lambda>j. if j \<in> set [''A'', ''B'']
                  then Some (log_prob (real (count_list (zip ?tags (tl ?tags)) (''A'', j))
                                       / real (count_list ?tags ''A'')))
                  else None"
  have eq: "set [''A'', ''B''] = set ?tags" by auto
  have a: "''A'' \<in> set [''A'', ''B'']" by simp
  have "row_sum ?row = (if ''A'' = last ?tags
                        then (real (count_list ?tags ''A'') - 1) / real (count_list ?tags ''A'')
                        else 1)"
    by (rule trans_row_sum[OF eq a])
  then have rs: "row_sum ?row = 2 / 3" by simp
  have t: "find_trans_prob (map snd [(''x'', ''A''), (''y'', ''B''), (''x'', ''A''),
                                     (''y'', ''B''), (''x'', ''A'')]) [''A'', ''B'']
           = Inr (\<lambda>i. if i \<in> set [''A'', ''B''] then Some (\<lambda>j. if j \<in> set [''A'', ''B'']
                             then Some (log_prob (real (count_list (zip ?tags (tl ?tags)) (i, j))
                                                  / real (count_list ?tags i)))
                             else None) else None)"
    using trans_scenario by simp
  have r: "(\<lambda>i. if i \<in> set [''A'', ''B''] then Some (\<lambda>j. if j \<in> set [''A'', ''B'']
                             then Some (log_prob (real (count_list (zip ?tags (tl ?tags)) (i, j))
                                                  / real (count_list ?tags i)))
                             else None) else None) ''A'' = Some ?row"
    by simp
  have far: "\<not> \<bar>row_sum ?row - 1\<bar> \<le> 1 / 10 ^ 9" unfolding rs by simp
  show ?thesis
    apply (rule exI)
    apply (rule exI[of _ ?row])
    apply (rule conjI[OF t])
    apply (rule conjI[OF r])
    apply (rule conjI[OF rs])
    apply (rule far)
    done
qed

section \<open>Laplace smoothing\<close>

text \<open>
  C4 (as amended). For a tag \<open>j\<close> with \<open>C\<close> training words, \<open>n\<close> of them distinct, and a
  training vocabulary of \<open>V\<close> words, the residual is \<open>1/(C+V)\<close> and the smoothed emission
  probabilities of \<open>j\<close> sum to \<open>(C+n)/(C+V)\<close>. They sum to 1 together with the residual
  taken once for each of the \<open>V - n\<close> words of the vocabulary that were not seen with \<open>j\<close>;
  with the residual taken once, the sum is \<open>(C+n+1)/(C+V)\<close>.
\<close>

theorem laplace_row_sum:
  assumes l0: "laplace_emis_prob training_tagged pos (length (remdups (map fst training_tagged)))
                 = Inr (smoothed_emis_prob, unseen_values)"
    and j: "j \<in> set pos"
  shows "\<exists>row u. smoothed_emis_prob j = Some row \<and> unseen_values j = Some u
      \<and> u = 1 / (real (count_list (map snd training_tagged) j)
                  + real (length (remdups (map fst training_tagged))))
      \<and> row_sum row
          = (real (count_list (map snd training_tagged) j)
               + real (card {w. (w, j) \<in> set training_tagged}))
            / (real (count_list (map snd training_tagged) j)
               + real (length (remdups (map fst training_tagged))))
      \<and> card {w. (w, j) \<in> set training_tagged} \<le> length (remdups (map fst training_tagged))
      \<and> real (length (remdups (map fst training_tagged))
               - card {w. (w, j) \<in> set training_tagged}) * u
          + row_sum row = 1"
proof -
  let ?C = "count_list (map snd training_tagged) j"
  let ?V = "length (remdups (map fst training_tagged))"
  let ?n = "card {w. (w, j) \<in> set training_tagged}"
  from laplace_row_sum_aux[OF l0 j] obtain row u where
    row: "smoothed_emis_prob j = Some row" and u: "unseen_values j = Some u"
    and uv: "u = 1 / (real ?C + real ?V)"
    and rs: "row_sum row = (real ?C + real ?n) / (real ?C + real ?V)"
    and cv: "0 < real ?C + real ?V"
    by blast
  have "{w. (w, j) \<in> set training_tagged} \<subseteq> set (map fst training_tagged)" by force
  then have "card {w. (w, j) \<in> set training_tagged} \<le> card (set (map fst training_tagged))"
    by (intro card_mono) simp_all
  then have nv: "?n \<le> ?V" by (simp only: length_remdups_card_conv)
  have "real (?V - ?n) * (1 / (real ?C + real ?V)) + (real ?C + real ?n) / (real ?C + real ?V)
          = (real (?V - ?n) + (real ?C + real ?n)) / (real ?C + real ?V)"
    by (simp only: add_divide_distrib times_divide_eq_right mult_1_right)
  also have "real (?V - ?n) + (real ?C + real ?n) = real ?C + real ?V"
    using nv by (simp only: of_nat_diff)
  also have "(real ?C + real ?V) / (real ?C + real ?V) = 1" using cv by simp
  finally have one: "real (?V - ?n) * u + row_sum row = 1"
    by (simp only: rs uv)
  show ?thesis
    apply (rule exI[of _ row])
    apply (rule exI[of _ u])
    apply (rule conjI[OF row])
    apply (rule conjI[OF u])
    apply (rule conjI[OF uv])
    apply (rule conjI[OF rs])
    apply (rule conjI[OF nv])
    apply (rule one)
    done
qed

theorem laplace_row_sum_witness:
  "\<exists>smoothed_emis_prob unseen_values.
     laplace_emis_prob [(''x'', ''A''), (''y'', ''A''), (''x'', ''B'')] [''A'', ''B'']
       (length (remdups (map fst [(''x'', ''A''), (''y'', ''A''), (''x'', ''B'')])))
       = Inr (smoothed_emis_prob, unseen_values)
     \<and> ''B'' \<in> set [''A'', ''B'']
     \<and> (\<exists>row u. smoothed_emis_prob ''B'' = Some row \<and> unseen_values ''B'' = Some u
      \<and> u = 1 / (real (count_list (map snd [(''x'', ''A''), (''y'', ''A''), (''x'', ''B'')]) ''B'')
                  + real (length (remdups (map fst [(''x'', ''A''), (''y'', ''A''), (''x'', ''B'')]))))
      \<and> row_sum row
          = (real (count_list (map snd [(''x'', ''A''), (''y'', ''A''), (''x'', ''B'')]) ''B'')
               + real (card {w. (w, ''B'') \<in> set [(''x'', ''A''), (''y'', ''A''), (''x'', ''B'')]}))
            / (real (count_list (map snd [(''x'', ''A''), (''y'', ''A''), (''x'', ''B'')]) ''B'')
               + real (length (remdups (map fst [(''x'', ''A''), (''y'', ''A''), (''x'', ''B'')]))))
      \<and> card {w. (w, ''B'') \<in> set [(''x'', ''A''), (''y'', ''A''), (''x'', ''B'')]}
          \<le> length (remdups (map fst [(''x'', ''A''), (''y'', ''A''), (''x'', ''B'')]))
      \<and> real (length (remdups (map fst [(''x'', ''A''), (''y'', ''A''), (''x'', ''B'')]))
               - card {w. (w, ''B'') \<in> set [(''x'', ''A''), (''y'', ''A''), (''x'', ''B'')]}) * u
          + row_sum row = 1)
     \<and> unseen_values ''B'' = Some (1 / 3)"
proof -
  define L where
    "L = projr (laplace_emis_prob [(''x'', ''A''), (''y'', ''A''), (''x'', ''B'')] [''A'', ''B'']
       (length (remdups (map fst [(''x'', ''A''), (''y'', ''A''), (''x'', ''B'')]))))"
  have l0: "laplace_emis_prob [(''x'', ''A''), (''y'', ''A''), (''x'', ''B'')] [''A'', ''B'']
       (length (remdups (map fst [(''x'', ''A''), (''y'', ''A''), (''x'', ''B'')])))
       = Inr (fst L, snd L)"
    unfolding L_def by (simp add: eval_defs)
  have h: "''B'' \<in> set [''A'', ''B'']" by simp
  note c = laplace_row_sum[OF l0 h]
  have v: "snd L ''B'' = Some (1 / 3)"
    unfolding L_def by (simp add: eval_defs)
  show ?thesis
    apply (rule exI[of _ "fst L"])
    apply (rule exI[of _ "snd L"])
    apply (rule conjI[OF l0])
    apply (rule conjI[OF h])
    apply (rule conjI[OF c])
    apply (rule v)
    done
qed

text \<open>
  The claim as stated fails: trained on the one tagged word \<open>x/A\<close>, the residual of \<open>A\<close> is
  \<open>1/2\<close> and its one smoothed probability is \<open>2/2\<close>, together \<open>3/2\<close>.
\<close>

theorem laplace_residual_counterexample:
  "\<exists>smoothed_emis_prob unseen_values row u.
     laplace_emis_prob [(''x'', ''A'')] [''A''] (length (remdups (map fst [(''x'', ''A'')])))
       = Inr (smoothed_emis_prob, unseen_values)
     \<and> smoothed_emis_prob ''A'' = Some row \<and> unseen_values ''A'' = Some u
     \<and> u + row_sum row = 3 / 2
     \<and> \<not> \<bar>u + row_sum row - 1\<bar> \<le> 1 / 10 ^ 9"
proof -
  define L where
    "L = projr (laplace_emis_prob [(''x'', ''A'')] [''A'']
                  (length (remdups (map fst [(''x'', ''A'')]))))"
  have l0: "laplace_emis_prob [(''x'', ''A'')] [''A''] (length (remdups (map fst [(''x'', ''A'')])))
       = Inr (fst L, snd L)"
    unfolding L_def by (simp add: eval_defs)
  have h: "''A'' \<in> set [''A'']" by simp
  have words: "{w. (w, ''A'') \<in> set [(''x'', ''A'')]} = {''x''}" by auto
  from laplace_row_sum_aux[OF l0 h] obtain row u where
    row: "fst L ''A'' = Some row" and u: "snd L ''A'' = Some u"
    and uv: "u = 1 / 2" and rs: "row_sum row = 1"
    unfolding words by auto
  have s: "u + row_sum row = 3 / 2" unfolding uv rs by simp
  have far: "\<not> \<bar>u + row_sum row - 1\<bar> \<le> 1 / 10 ^ 9" unfolding s by simp
  show ?thesis
    apply (rule exI[of _ "fst L"])
    apply (rule exI[of _ "snd L"])
    apply (rule exI[of _ row])
    apply (rule exI[of _ u])
    apply (rule conjI[OF l0])
    apply (rule conjI[OF row])
    apply (rule conjI[OF u])
    apply (rule conjI[OF s])
    apply (rule far)
    done
qed

end
